theory Spec2Isabelle
  imports Complex_Main "HOL-Library.Word"
begin

section \<open>Numbers\<close>

text \<open>
  The program computes with JavaScript numbers. Finite numbers are modelled as
  \<^typ>\<open>real\<close> (no rounding error, and the two zeros are one). Where the source
  divides, or reads a number out of an imported file, the result may be
  \<open>Infinity\<close>, \<open>-Infinity\<close> or \<open>NaN\<close>; such values are kept apart in the type
  \<open>jsnum\<close>, with the operations of the source that act on them.
\<close>

datatype jsnum = Fin real | PosInf | NegInf | NaN

text \<open>\<open>a / b\<close> on finite operands; a zero divisor is taken as \<open>+0\<close>.\<close>

definition js_div :: "real \<Rightarrow> real \<Rightarrow> jsnum" where
  "js_div a b =
     (if b \<noteq> 0 then Fin (a / b)
      else if 0 < a then PosInf
      else if a < 0 then NegInf
      else NaN)"

text \<open>\<open>x * c\<close> for a finite \<open>c\<close>.\<close>

fun js_times :: "jsnum \<Rightarrow> real \<Rightarrow> jsnum" where
  "js_times (Fin x) c = Fin (x * c)"
| "js_times PosInf c = (if 0 < c then PosInf else if c < 0 then NegInf else NaN)"
| "js_times NegInf c = (if 0 < c then NegInf else if c < 0 then PosInf else NaN)"
| "js_times NaN c = NaN"

text \<open>\<open>Math.round\<close>: the nearest integer, a tie going up.\<close>

definition js_round :: "real \<Rightarrow> int" where
  "js_round x = \<lfloor>x + 1 / 2\<rfloor>"

fun Math_round :: "jsnum \<Rightarrow> jsnum" where
  "Math_round (Fin x) = Fin (of_int (js_round x))"
| "Math_round v = v"

fun Math_max :: "jsnum \<Rightarrow> jsnum \<Rightarrow> jsnum" where
  "Math_max NaN b = NaN"
| "Math_max a NaN = NaN"
| "Math_max PosInf b = PosInf"
| "Math_max a PosInf = PosInf"
| "Math_max NegInf b = b"
| "Math_max a NegInf = a"
| "Math_max (Fin x) (Fin y) = Fin (max x y)"

fun Math_min :: "jsnum \<Rightarrow> jsnum \<Rightarrow> jsnum" where
  "Math_min NaN b = NaN"
| "Math_min a NaN = NaN"
| "Math_min NegInf b = NegInf"
| "Math_min a NegInf = NegInf"
| "Math_min PosInf b = b"
| "Math_min a PosInf = a"
| "Math_min (Fin x) (Fin y) = Fin (min x y)"

text \<open>\<open>a >= b\<close> and \<open>a <= b\<close>: false as soon as one side is \<open>NaN\<close>.\<close>

fun js_ge :: "jsnum \<Rightarrow> jsnum \<Rightarrow> bool" where
  "js_ge NaN b = False"
| "js_ge a NaN = False"
| "js_ge PosInf b = True"
| "js_ge a NegInf = True"
| "js_ge NegInf b = False"
| "js_ge a PosInf = False"
| "js_ge (Fin x) (Fin y) = (y \<le> x)"

definition js_le :: "jsnum \<Rightarrow> jsnum \<Rightarrow> bool" where
  "js_le a b = js_ge b a"

fun isFinite :: "jsnum \<Rightarrow> bool" where
  "isFinite (Fin x) = True"
| "isFinite v = False"

section \<open>Utility\<close>

definition clamp :: "real \<Rightarrow> real \<Rightarrow> real \<Rightarrow> real" where
  "clamp v lo hi = max lo (min hi v)"

definition lerp :: "real \<Rightarrow> real \<Rightarrow> real \<Rightarrow> real" where
  "lerp a b t = a + (b - a) * t"

section \<open>Calibration and density levels\<close>

record ehd_params =
  p_ch0 :: real
  p_ch1 :: real
  p_ch2 :: real
  duration_base :: real
  resistance_factor :: real

definition DENSE_PARAMS :: ehd_params where
  "DENSE_PARAMS = \<lparr>p_ch0 = 80, p_ch1 = 70, p_ch2 = 0, duration_base = 1500,
     resistance_factor = 135 / 1000\<rparr>"

definition SPARSE_PARAMS :: ehd_params where
  "SPARSE_PARAMS = \<lparr>p_ch0 = 73, p_ch1 = 70, p_ch2 = 0, duration_base = 2000,
     resistance_factor = 5 / 100\<rparr>"

record calibration =
  denseCh0 :: real
  denseDuration :: real
  denseResistance :: real
  sparseCh0 :: real
  sparseDuration :: real
  sparseResistance :: real
  cal_ch1 :: real
  cal_feedSpeed :: real

text \<open>The optional argument \<open>calibration\<close> is \<open>None\<close> when it is \<open>null\<close>.\<close>

definition densityLevelToEHDParams :: "real \<Rightarrow> calibration option \<Rightarrow> ehd_params" where
  "densityLevelToEHDParams densityLevel cal =
     (let level = clamp densityLevel 1 10;
          ratio = (level - 1) / 9;
          denseParams = (case cal of
              Some c \<Rightarrow> \<lparr>p_ch0 = denseCh0 c, p_ch1 = cal_ch1 c, p_ch2 = 0,
                         duration_base = denseDuration c,
                         resistance_factor = denseResistance c\<rparr>
            | None \<Rightarrow> DENSE_PARAMS);
          sparseParams = (case cal of
              Some c \<Rightarrow> \<lparr>p_ch0 = sparseCh0 c, p_ch1 = cal_ch1 c, p_ch2 = 0,
                         duration_base = sparseDuration c,
                         resistance_factor = sparseResistance c\<rparr>
            | None \<Rightarrow> SPARSE_PARAMS)
      in \<lparr>p_ch0 = of_int (js_round (lerp (p_ch0 sparseParams) (p_ch0 denseParams) ratio)),
          p_ch1 = p_ch1 denseParams,
          p_ch2 = p_ch2 denseParams,
          duration_base = of_int (js_round
             (lerp (duration_base sparseParams) (duration_base denseParams) ratio)),
          resistance_factor = lerp (resistance_factor sparseParams)
             (resistance_factor denseParams) ratio\<rparr>)"

section \<open>Segments and the step compiler\<close>

text \<open>
  A position \<open>{startCm, endCm}\<close>, and a segment, which has a density level as well.
\<close>

record span =
  startCm :: real
  endCm :: real

record segment = span +
  densityLevel :: real

record step =
  ch0 :: jsnum
  ch1 :: jsnum
  duration :: jsnum

text \<open>The duration of a rest step for a gap of \<open>gapLengthCm\<close>.\<close>

definition gapStep :: "real \<Rightarrow> real \<Rightarrow> step" where
  "gapStep gapLengthCm feedSpeedMmPerSec =
     (let gapDurationMs = Math_round (js_times (js_div (gapLengthCm * 10) feedSpeedMmPerSec) 1000)
      in \<lparr>ch0 = Fin 0, ch1 = Fin 70, duration = Math_max (Fin 1000) gapDurationMs\<rparr>)"

definition segmentStep :: "segment \<Rightarrow> real \<Rightarrow> calibration option \<Rightarrow> step" where
  "segmentStep seg feedSpeedMmPerSec cal =
     (let ehdParams = densityLevelToEHDParams (densityLevel seg) cal;
          segmentLengthMm = (endCm seg - startCm seg) * 10;
          baseDurationMs = js_times (js_div segmentLengthMm feedSpeedMmPerSec) 1000;
          adjustedDuration = Math_round baseDurationMs
      in \<lparr>ch0 = Fin (p_ch0 ehdParams), ch1 = Fin (p_ch1 ehdParams),
          duration = Math_max (Fin 1000) adjustedDuration\<rparr>)"

text \<open>
  The \<open>for\<close> loop of \<open>segmentsToEHDSteps\<close> over the sorted segments that are left,
  with the steps pushed so far and \<open>currentPos\<close>; it returns both.
\<close>

fun ehdLoop :: "real \<Rightarrow> int \<Rightarrow> calibration option \<Rightarrow> segment list \<Rightarrow> step list \<Rightarrow> real
    \<Rightarrow> step list \<times> real" where
  "ehdLoop feed maxSteps cal [] steps currentPos = (steps, currentPos)"
| "ehdLoop feed maxSteps cal (seg # rest) steps currentPos =
     (if int (length steps) < maxSteps then
        (let steps1 = (if currentPos < startCm seg
                       then steps @ [gapStep (startCm seg - currentPos) feed]
                       else steps);
             steps2 = steps1 @ [segmentStep seg feed cal]
         in ehdLoop feed maxSteps cal rest steps2 (endCm seg))
      else (steps, currentPos))"

text \<open>\<open>segments\<close> is \<open>None\<close> when the argument is absent (\<open>null\<close> or \<open>undefined\<close>).\<close>

definition segmentsToEHDSteps :: "segment list option \<Rightarrow> real \<Rightarrow> int \<Rightarrow> calibration option
    \<Rightarrow> real \<Rightarrow> step list" where
  "segmentsToEHDSteps segments feedSpeedMmPerSec maxSteps cal tubeLengthCm =
     (case segments of
        None \<Rightarrow> [\<lparr>ch0 = Fin 0, ch1 = Fin 70, duration = Fin 1500\<rparr>]
      | Some segs \<Rightarrow>
          if segs = [] then [\<lparr>ch0 = Fin 0, ch1 = Fin 70, duration = Fin 1500\<rparr>]
          else
            (let sortedSegments = sort_key startCm segs;
                 (steps, currentPos) =
                    ehdLoop feedSpeedMmPerSec maxSteps cal sortedSegments [] 0
             in if currentPos < tubeLengthCm
                then steps @ [gapStep (tubeLengthCm - currentPos) feedSpeedMmPerSec]
                else steps))"

text \<open>The calibration the editor starts with (\<open>calibrationParams\<close>), at feed speed 80.\<close>

definition calibrationParams0 :: calibration where
  "calibrationParams0 =
     \<lparr>denseCh0 = p_ch0 DENSE_PARAMS, denseDuration = duration_base DENSE_PARAMS,
      denseResistance = resistance_factor DENSE_PARAMS, sparseCh0 = p_ch0 SPARSE_PARAMS,
      sparseDuration = duration_base SPARSE_PARAMS,
      sparseResistance = resistance_factor SPARSE_PARAMS,
      cal_ch1 = p_ch1 DENSE_PARAMS, cal_feedSpeed = 80\<rparr>"

section \<open>The segment editor\<close>

definition segmentsOverlap :: "'a span_scheme \<Rightarrow> 'b span_scheme \<Rightarrow> bool" where
  "segmentsOverlap seg1 seg2 = (startCm seg1 < endCm seg2 \<and> startCm seg2 < endCm seg1)"










text \<open>The invariant of a segment set: no two of its segments overlap.\<close>

definition nonOverlapping :: "segment list \<Rightarrow> bool" where
  "nonOverlapping segs = sorted_wrt (\<lambda>a b. \<not> segmentsOverlap a b) segs"

text \<open>A segment as the data model has it: \<open>startCm < endCm\<close>.\<close>

definition validSegment :: "segment \<Rightarrow> bool" where
  "validSegment s = (startCm s < endCm s)"




section \<open>Steps as a tiling of the tube\<close>

text \<open>
  The length in millimetres that a step stands for at a feed speed:
  \<open>duration / 1000 * feedSpeed\<close>.
\<close>

definition stepLengthMm :: "real \<Rightarrow> step \<Rightarrow> jsnum" where
  "stepLengthMm feedSpeed st = js_times (js_times (duration st) (1 / 1000)) feedSpeed"

text \<open>
  Laying lengths end to end from a position gives the intervals they cover, each one
  starting where the one before ends; there are none when a length is not finite.
\<close>

fun coverFrom :: "real \<Rightarrow> jsnum list \<Rightarrow> (real \<times> real) list option" where
  "coverFrom pos [] = Some []"
| "coverFrom pos (Fin l # ls) =
     (case coverFrom (pos + l) ls of None \<Rightarrow> None | Some ivs \<Rightarrow> Some ((pos, pos + l) # ivs))"
| "coverFrom pos (v # ls) = None"

text \<open>
  A step list tiles the tube \<open>[0, tubeLengthCm]\<close> for a segment set when the intervals
  of its steps, laid end to end from 0 (in millimetres), are proper intervals that
  end at the end of the tube, every segment is one of them, and every other one
  (a gap) meets no segment.
\<close>

definition tilesTube :: "real \<Rightarrow> real \<Rightarrow> segment list \<Rightarrow> step list \<Rightarrow> bool" where
  "tilesTube feedSpeed tubeLengthCm segs steps =
     (case coverFrom 0 (map (stepLengthMm feedSpeed) steps) of
        None \<Rightarrow> False
      | Some ivs \<Rightarrow>
          ivs \<noteq> [] \<and> snd (last ivs) = 10 * tubeLengthCm
          \<and> (\<forall>(a, b)\<in>set ivs. a < b)
          \<and> (\<forall>s\<in>set segs. (10 * startCm s, 10 * endCm s) \<in> set ivs)
          \<and> (\<forall>(a, b)\<in>set ivs.
                (\<exists>s\<in>set segs. a = 10 * startCm s \<and> b = 10 * endCm s)
                \<or> (\<forall>s\<in>set segs. b \<le> 10 * startCm s \<or> 10 * endCm s \<le> a)))"

text \<open>The positions where a step can begin or end: 0, the end of the tube, and the
  starts and ends of the segments.\<close>

definition boundaries :: "real \<Rightarrow> segment list \<Rightarrow> real list" where
  "boundaries tubeLengthCm segs = 0 # tubeLengthCm # map startCm segs @ map endCm segs"

text \<open>The time in milliseconds to feed a length given in centimetres.\<close>

definition feedTimeMs :: "real \<Rightarrow> real \<Rightarrow> real" where
  "feedTimeMs feedSpeed lengthCm = lengthCm * 10 / feedSpeed * 1000"

text \<open>
  The steps that the loop of \<open>segmentsToEHDSteps\<close> and the final gap push when the cap
  \<open>maxSteps\<close> is not reached, and the intervals (in millimetres) of the gaps and
  segments from a position on.
\<close>

fun emittedSteps :: "real \<Rightarrow> calibration option \<Rightarrow> real \<Rightarrow> real \<Rightarrow> segment list \<Rightarrow> step list" where
  "emittedSteps feed cal tube cur [] = (if cur < tube then [gapStep (tube - cur) feed] else [])"
| "emittedSteps feed cal tube cur (s # ss) =
     (if cur < startCm s then [gapStep (startCm s - cur) feed] else [])
       @ segmentStep s feed cal # emittedSteps feed cal tube (endCm s) ss"

fun tubeTiles :: "real \<Rightarrow> real \<Rightarrow> segment list \<Rightarrow> (real \<times> real) list" where
  "tubeTiles tube cur [] = (if cur < tube then [(10 * cur, 10 * tube)] else [])"
| "tubeTiles tube cur (s # ss) =
     (if cur < startCm s then [(10 * cur, 10 * startCm s)] else [])
       @ (10 * startCm s, 10 * endCm s) # tubeTiles tube (endCm s) ss"

text \<open>Segments in a row: each starts no sooner than the position before it, and is valid.\<close>

fun chained :: "real \<Rightarrow> segment list \<Rightarrow> bool" where
  "chained cur [] = True"
| "chained cur (s # ss) = (cur \<le> startCm s \<and> startCm s < endCm s \<and> chained (endCm s) ss)"

section \<open>Sampling the raster\<close>

text \<open>An \<open>ImageData\<close>: \<open>data\<close> holds four bytes (R, G, B, A) for each pixel, row by row.\<close>

record imageData =
  width :: nat
  height :: nat
  data :: "8 word list"

text \<open>A raster as the platform builds it: at least one pixel, four bytes for each.\<close>

definition validImage :: "imageData \<Rightarrow> bool" where
  "validImage img =
     (1 \<le> width img \<and> 1 \<le> height img \<and> length (data img) = 4 * width img * height img)"

text \<open>\<open>data[idx]\<close>: \<open>None\<close> is \<open>undefined\<close>, the value of a read outside the array.\<close>

definition dataAt :: "8 word list \<Rightarrow> int \<Rightarrow> 8 word option" where
  "dataAt d idx = (if 0 \<le> idx \<and> idx < int (length d) then Some (d ! nat idx) else None)"

text \<open>The index \<open>idx\<close> that \<open>grayscaleAt\<close> computes; it reads \<open>idx\<close>, \<open>idx + 1\<close>, \<open>idx + 2\<close>.\<close>

definition pixelIndex :: "imageData \<Rightarrow> real \<Rightarrow> real \<Rightarrow> int" where
  "pixelIndex img x y =
     (let xi = \<lfloor>clamp x 0 (real (width img) - 1)\<rfloor>;
          yi = \<lfloor>clamp y 0 (real (height img) - 1)\<rfloor>
      in (yi * int (width img) + xi) * 4)"

text \<open>Arithmetic on \<open>undefined\<close> gives \<open>NaN\<close>.\<close>

definition grayscaleAt :: "imageData \<Rightarrow> real \<Rightarrow> real \<Rightarrow> jsnum" where
  "grayscaleAt img x y =
     (let idx = pixelIndex img x y
      in case (dataAt (data img) idx, dataAt (data img) (idx + 1), dataAt (data img) (idx + 2)) of
           (Some r, Some g, Some b) \<Rightarrow>
             Fin ((299 / 1000 * real (unat r) + 587 / 1000 * real (unat g)
                    + 114 / 1000 * real (unat b)) / 255)
         | _ \<Rightarrow> NaN)"

text \<open>A raster of two pixels side by side.\<close>

definition image0 :: imageData where
  "image0 = \<lparr>width = 2, height = 1, data = [255, 0, 0, 255, 10, 20, 30, 255]\<rparr>"

text \<open>
  The point of \<open>[0, n - 1]\<close> nearest to \<open>x\<close>, written without \<open>clamp\<close>: what
  the sampled coordinate is compared with.
\<close>

definition nearestCoord :: "nat \<Rightarrow> real \<Rightarrow> real" where
  "nearestCoord n x = (if x < 0 then 0 else if real n - 1 < x then real n - 1 else x)"

section \<open>Resampling a polyline\<close>

text \<open>
  The coordinates, the step and every intermediate value of \<open>resampleUniform\<close> are
  binary64 numbers, and how often its loop runs depends on how \<open>t += stepPx\<close> rounds.
  So the arithmetic of this section is that of doubles: a finite double is the real
  number it stands for, and an operation is the exact one followed by \<open>rnd\<close>, the
  rounding to the nearest double, ties to the even significand.
\<close>

text \<open>The integer nearest to \<open>x\<close>, the even one of two equally near.\<close>

definition roundEven :: "real \<Rightarrow> int" where
  "roundEven x =
     (let f = \<lfloor>x\<rfloor>
      in if x - of_int f < 1 / 2 then f
         else if 1 / 2 < x - of_int f then f + 1
         else if even f then f else f + 1)"

text \<open>
  The exponent \<open>e\<close> with \<open>2\<^sup>e \<le> |x| < 2\<^sup>e\<^sup>+\<^sup>1\<close>, and \<open>-1022\<close> for the subnormal
  numbers. The doubles there are the multiples of \<open>2\<^sup>e\<^sup>-\<^sup>5\<^sup>2\<close>.
\<close>

definition binade :: "real \<Rightarrow> int" where
  "binade x = max \<lfloor>log 2 \<bar>x\<bar>\<rfloor> (- 1022)"

text \<open>
  \<open>rnd\<close> has no overflow: it is the rounding of the language for results below
  \<open>2\<^sup>1\<^sup>0\<^sup>2\<^sup>4\<close>, and \<open>resampleUniform\<close> computes no other from the coordinates and steps
  that \<open>double\<close> admits.
\<close>

definition rnd :: "real \<Rightarrow> real" where
  "rnd x = (if x = 0 then 0
            else of_int (roundEven (x * 2 powi (52 - binade x))) * 2 powi (binade x - 52))"

text \<open>A double of magnitude at most \<open>2\<^sup>1\<^sup>0\<^sup>0\<^sup>0\<close>.\<close>

definition double :: "real \<Rightarrow> bool" where
  "double x = (rnd x = x \<and> \<bar>x\<bar> \<le> 2 powi 1000)"

text \<open>\<open>a + b\<close>, \<open>a - b\<close>, \<open>a * b\<close> and \<open>a / b\<close> on doubles.\<close>

definition add64 :: "real \<Rightarrow> real \<Rightarrow> real" where
  "add64 a b = rnd (a + b)"

definition sub64 :: "real \<Rightarrow> real \<Rightarrow> real" where
  "sub64 a b = rnd (a - b)"

definition mul64 :: "real \<Rightarrow> real \<Rightarrow> real" where
  "mul64 a b = rnd (a * b)"

definition div64 :: "real \<Rightarrow> real \<Rightarrow> real" where
  "div64 a b = rnd (a / b)"

text \<open>
  \<open>Math.hypot\<close>. The language leaves its accuracy to the implementation; it is taken
  as the correctly rounded root, which on a segment parallel to an axis is the exact
  \<open>|x|\<close> or \<open>|y|\<close>.
\<close>

definition Math_hypot :: "real \<Rightarrow> real \<Rightarrow> real" where
  "Math_hypot x y = rnd (sqrt (x\<^sup>2 + y\<^sup>2))"

text \<open>\<open>lerp\<close> as it is evaluated on doubles, each operation rounded.\<close>

definition lerp64 :: "real \<Rightarrow> real \<Rightarrow> real \<Rightarrow> real" where
  "lerp64 a b t = add64 a (mul64 (sub64 b a) t)"

record point =
  pt_x :: real
  pt_y :: real

definition doublePoint :: "point \<Rightarrow> bool" where
  "doublePoint p = (double (pt_x p) \<and> double (pt_y p))"

text \<open>\<open>dist\<close>: \<open>Math.hypot\<close> of the differences.\<close>

definition dist_pt :: "point \<Rightarrow> point \<Rightarrow> real" where
  "dist_pt a b = Math_hypot (sub64 (pt_x a) (pt_x b)) (sub64 (pt_y a) (pt_y b))"

text \<open>The point that the loop pushes: \<open>{x: lerp(a.x, b.x, u), y: lerp(a.y, b.y, u)}\<close>.\<close>

definition interp :: "point \<Rightarrow> point \<Rightarrow> real \<Rightarrow> point" where
  "interp a b u = \<lparr>pt_x = lerp64 (pt_x a) (pt_x b) u, pt_y = lerp64 (pt_y a) (pt_y b) u\<rparr>"

text \<open>
  The \<open>while\<close> loop of \<open>resampleUniform\<close> on one segment. It does not end when \<open>t\<close>
  stays at most \<open>segLen\<close>, as it does for a step that is not positive or that is lost
  in the rounding of \<open>t + stepPx\<close>: the result is then \<open>None\<close>.
\<close>

partial_function (option) emitLoop ::
    "point \<Rightarrow> point \<Rightarrow> real \<Rightarrow> real \<Rightarrow> real \<Rightarrow> point list \<Rightarrow> point list option" where
  "emitLoop a b segLen stepPx t out =
     (if t \<le> segLen
      then emitLoop a b segLen stepPx (add64 t stepPx) (out @ [interp a b (div64 t segLen)])
      else Some out)"

text \<open>
  \<open>a % b\<close> for a divisor other than zero: the remainder has the sign of \<open>a\<close>. The
  remainder of two doubles is a double, so that nothing is rounded.
  \<open>resampleUniform\<close> takes it with a positive step only, the loop before it not ending
  otherwise.
\<close>

definition js_rem :: "real \<Rightarrow> real \<Rightarrow> real" where
  "js_rem a b = a - b * of_int (if 0 \<le> a / b then \<lfloor>a / b\<rfloor> else \<lceil>a / b\<rceil>)"

text \<open>The \<open>for\<close> loop over the segments that are left, from \<open>pts[i - 1]\<close> on.\<close>

fun resampleLoop :: "real \<Rightarrow> point list \<Rightarrow> real \<Rightarrow> point list \<Rightarrow> point list option" where
  "resampleLoop stepPx (a # b # rest) acc out =
     (case emitLoop a b (dist_pt a b) stepPx (sub64 stepPx acc) out of
        None \<Rightarrow> None
      | Some out' \<Rightarrow>
          resampleLoop stepPx (b # rest) (js_rem (add64 (dist_pt a b) acc) stepPx) out')"
| "resampleLoop stepPx pts acc out = Some out"

definition resampleUniform :: "point list \<Rightarrow> real \<Rightarrow> point list option" where
  "resampleUniform pts stepPx =
     (case pts of [] \<Rightarrow> Some [] | p # rest \<Rightarrow> resampleLoop stepPx pts 0 [p])"

text \<open>The value of \<open>t\<close> after \<open>k\<close> passes of the \<open>while\<close> loop entered with \<open>t\<close>.\<close>

primrec tAfter :: "real \<Rightarrow> real \<Rightarrow> nat \<Rightarrow> real" where
  "tAfter stepPx t 0 = t"
| "tAfter stepPx t (Suc k) = add64 (tAfter stepPx t k) stepPx"

text \<open>
  The distance of two points of the plane and the point of the segment from \<open>a\<close> to
  \<open>b\<close> at the parameter \<open>u\<close>, in exact arithmetic: what the result is compared with.
\<close>

definition euclid :: "point \<Rightarrow> point \<Rightarrow> real" where
  "euclid a b = sqrt ((pt_x a - pt_x b)\<^sup>2 + (pt_y a - pt_y b)\<^sup>2)"

definition pointAt :: "point \<Rightarrow> point \<Rightarrow> real \<Rightarrow> point" where
  "pointAt a b u = \<lparr>pt_x = lerp (pt_x a) (pt_x b) u, pt_y = lerp (pt_y a) (pt_y b) u\<rparr>"

text \<open>
  Nothing rounds on the way to the points pushed: the length computed is the length
  of the segment, and the point pushed at each multiple of the step is the point of
  the segment there.
\<close>

definition exactGeometry :: "point \<Rightarrow> point \<Rightarrow> real \<Rightarrow> bool" where
  "exactGeometry a b s =
     (dist_pt a b = euclid a b
      \<and> (\<forall>k. 1 \<le> k \<and> k \<le> nat \<lfloor>dist_pt a b / s\<rfloor>
             \<longrightarrow> interp a b (div64 (real k * s) (dist_pt a b))
                  = pointAt a b (real k * s / dist_pt a b)))"

section \<open>Importing steps\<close>

text \<open>
  A candidate step of an imported file. A field is \<open>None\<close> when it is missing or
  \<open>null\<close>, and otherwise the number that \<open>Math.min\<close> and \<open>Math.max\<close> make of its value
  (\<open>NaN\<close> for a value that is no number).
\<close>

record candidate =
  c_ch0 :: "jsnum option"
  c_ch1 :: "jsnum option"
  c_duration :: "jsnum option"

text \<open>The operator \<open>??\<close>.\<close>

definition nullish :: "'a option \<Rightarrow> 'a \<Rightarrow> 'a" where
  "nullish v d = (case v of None \<Rightarrow> d | Some x \<Rightarrow> x)"

text \<open>\<open>clamp\<close> on a number that may be infinite or \<open>NaN\<close>.\<close>

definition js_clamp :: "jsnum \<Rightarrow> jsnum \<Rightarrow> jsnum \<Rightarrow> jsnum" where
  "js_clamp v lo hi = Math_max lo (Math_min hi v)"

text \<open>The argument is \<open>None\<close> when \<open>s\<close> is \<open>null\<close> or \<open>undefined\<close>.\<close>

definition validateStep :: "step option \<Rightarrow> bool" where
  "validateStep so =
     (case so of
        None \<Rightarrow> False
      | Some s \<Rightarrow>
          (let ch0Ok = (isFinite (ch0 s) \<and> js_ge (ch0 s) (Fin 0) \<and> js_le (ch0 s) (Fin 100));
               ch1Ok = (isFinite (ch1 s) \<and> js_ge (ch1 s) (Fin 0) \<and> js_le (ch1 s) (Fin 100));
               durOk = (isFinite (duration s) \<and> js_ge (duration s) (Fin 1))
           in ch0Ok \<and> ch1Ok \<and> durOk))"

text \<open>The function that \<open>extractStepsFromJson\<close> maps over the steps; \<open>defaultCh1\<close> is
  \<open>calibrationParams.ch1\<close>.\<close>

definition normalizeStep :: "real \<Rightarrow> candidate \<Rightarrow> step" where
  "normalizeStep defaultCh1 s =
     \<lparr>ch0 = Math_round (js_clamp (nullish (c_ch0 s) (Fin 0)) (Fin 0) (Fin 100)),
      ch1 = Math_round (js_clamp (nullish (c_ch1 s) (Fin defaultCh1)) (Fin 0) (Fin 100)),
      duration = Math_round (Math_max (Fin 1) (nullish (c_duration s) (Fin 0)))\<rparr>"

text \<open>
  An entry of the step array is \<open>None\<close> when it is \<open>null\<close>; reading a field of it
  throws, and the exception leaves \<open>extractStepsFromJson\<close>.
\<close>

datatype import_error = TypeError

fun normalizeAll :: "real \<Rightarrow> candidate option list \<Rightarrow> import_error + step list" where
  "normalizeAll defaultCh1 [] = Inr []"
| "normalizeAll defaultCh1 (None # rest) = Inl TypeError"
| "normalizeAll defaultCh1 (Some s # rest) =
     (case normalizeAll defaultCh1 rest of
        Inl e \<Rightarrow> Inl e
      | Inr ns \<Rightarrow> Inr (normalizeStep defaultCh1 s # ns))"

text \<open>
  What \<open>extractStepsFromJson\<close> and \<open>buildStepsFromSegments\<close> read of the parsed file.
  A field is \<open>None\<close> when it is missing or not of the kind that is asked for (an array for
  \<open>steps\<close>, \<open>generated.steps\<close> and \<open>segments\<close>, a finite number for \<open>tubeLengthCm\<close> and
  \<open>feedSpeed\<close>); the segments are taken to be well-formed objects.
\<close>

record json_calibration =
  jc_denseCh0 :: "real option"
  jc_denseDuration :: "real option"
  jc_denseResistance :: "real option"
  jc_sparseCh0 :: "real option"
  jc_sparseDuration :: "real option"
  jc_sparseResistance :: "real option"
  jc_ch1 :: "real option"
  jc_feedSpeed :: "real option"

record import_json =
  j_steps :: "candidate option list option"
  j_generated_steps :: "candidate option list option"
  j_segments :: "segment list option"
  j_tubeLengthCm :: "real option"
  j_calibration :: "json_calibration option"

definition buildStepsFromSegments :: "calibration \<Rightarrow> import_json \<Rightarrow> step list" where
  "buildStepsFromSegments calibrationParams json =
     (let segs = (case j_segments json of Some a \<Rightarrow> a | None \<Rightarrow> []);
          tubeLength = (case j_tubeLengthCm json of Some l \<Rightarrow> l | None \<Rightarrow> 30);
          field = (\<lambda>get dflt. case j_calibration json of
                      Some c \<Rightarrow> nullish (get c) (dflt calibrationParams)
                    | None \<Rightarrow> dflt calibrationParams);
          feed = field jc_feedSpeed cal_feedSpeed
      in segmentsToEHDSteps (Some segs) feed 100
           (Some \<lparr>denseCh0 = field jc_denseCh0 denseCh0,
                  denseDuration = field jc_denseDuration denseDuration,
                  denseResistance = field jc_denseResistance denseResistance,
                  sparseCh0 = field jc_sparseCh0 sparseCh0,
                  sparseDuration = field jc_sparseDuration sparseDuration,
                  sparseResistance = field jc_sparseResistance sparseResistance,
                  cal_ch1 = field jc_ch1 cal_ch1,
                  cal_feedSpeed = feed\<rparr>)
           tubeLength)"

definition stepToCandidate :: "step \<Rightarrow> candidate" where
  "stepToCandidate st =
     \<lparr>c_ch0 = Some (ch0 st), c_ch1 = Some (ch1 st), c_duration = Some (duration st)\<rparr>"

definition extractStepsFromJson :: "calibration \<Rightarrow> import_json \<Rightarrow> import_error + step list" where
  "extractStepsFromJson calibrationParams json =
     (let direct = j_steps json;
          generated = j_generated_steps json;
          steps0 = (case direct of
                      Some d \<Rightarrow> d
                    | None \<Rightarrow> (case generated of Some g \<Rightarrow> g | None \<Rightarrow> []));
          steps = (if steps0 = []
                   then map (Some \<circ> stepToCandidate)
                          (buildStepsFromSegments calibrationParams json)
                   else steps0)
      in case normalizeAll (cal_ch1 calibrationParams) steps of
           Inl e \<Rightarrow> Inl e
         | Inr normalized \<Rightarrow> Inr (filter (\<lambda>s. validateStep (Some s)) normalized))"

text \<open>A parsed file with nothing in it.\<close>

definition emptyJson :: import_json where
  "emptyJson = \<lparr>j_steps = None, j_generated_steps = None, j_segments = None,
     j_tubeLengthCm = None, j_calibration = None\<rparr>"

section \<open>Synthesis of droplets\<close>

record droplet =
  s_px :: real
  s_mm :: real
  t_ms :: jsnum
  width_mm :: real
  amplitude :: real

text \<open>
  The values that \<open>recompute\<close> reads. \<open>widthMinPx\<close> and \<open>widthMaxPx\<close> are derived by the
  component as \<open>widthMinMm / mmPerPixel\<close> and \<open>widthMaxMm / mmPerPixel\<close>.
\<close>

record synth_params =
  sampleStepPx :: real
  mmPerPixel :: real
  feedSpeed :: real
  widthMinPx :: real
  widthMaxPx :: real
  widthMinMm :: real
  widthMaxMm :: real
  threshold :: real

datatype mode = PWM | AM | DITHER | OtherMode

text \<open>
  \<open>stepIdx = Math.max(1, Math.round(stepPx / sampleStepPx))\<close> with
  \<open>stepPx = Math.max(minSpacingPx, sampleStepPx)\<close>. The loops below take it as a
  natural number, which it is whenever it is finite.
\<close>

definition stepIdxOf :: "real \<Rightarrow> real \<Rightarrow> jsnum" where
  "stepIdxOf minSpacingPx sampleStep =
     Math_max (Fin 1) (Math_round (js_div (max minSpacingPx sampleStep) sampleStep))"

text \<open>The droplet pushed at sample \<open>i\<close>, with its width and amplitude.\<close>

definition dropAt :: "synth_params \<Rightarrow> nat \<Rightarrow> real \<Rightarrow> real \<Rightarrow> droplet" where
  "dropAt p i wmm amp =
     (let spx = real i * sampleStepPx p;
          smm = spx * mmPerPixel p;
          tms = js_times (js_div smm (feedSpeed p)) 1000
      in \<lparr>s_px = spx, s_mm = smm, t_ms = tms, width_mm = wmm, amplitude = amp\<rparr>)"

text \<open>The body of the PWM loop, on the droplets and the signal \<open>g\<close> so far.\<close>

definition pwmStep :: "synth_params \<Rightarrow> real \<Rightarrow> real list \<Rightarrow> nat
    \<Rightarrow> droplet list \<times> real list \<Rightarrow> droplet list \<times> real list" where
  "pwmStep p widthRangePx f i st =
     (let v = clamp (f ! i) 0 1;
          wpx = widthMinPx p + v * widthRangePx;
          wmm = wpx * mmPerPixel p
      in (fst st @ [dropAt p i wmm 1],
          (snd st)[i := (if 0 < widthRangePx then (wpx - widthMinPx p) / widthRangePx else 0)]))"

text \<open>\<open>for (let i = 0; i < f.length; i += stepIdx)\<close>; it does not end when \<open>stepIdx\<close> is 0.\<close>

partial_function (option) pwmLoop ::
    "synth_params \<Rightarrow> nat \<Rightarrow> real \<Rightarrow> real list \<Rightarrow> nat \<Rightarrow> droplet list \<times> real list
      \<Rightarrow> (droplet list \<times> real list) option" where
  "pwmLoop p stepIdx widthRangePx f i st =
     (if i < length f
      then pwmLoop p stepIdx widthRangePx f (i + stepIdx) (pwmStep p widthRangePx f i st)
      else Some st)"

definition amStep :: "synth_params \<Rightarrow> real \<Rightarrow> real list \<Rightarrow> nat
    \<Rightarrow> droplet list \<times> real list \<Rightarrow> droplet list \<times> real list" where
  "amStep p w0mm f i st =
     (let v = clamp (f ! i) 0 1
      in (fst st @ [dropAt p i w0mm v], (snd st)[i := v]))"

partial_function (option) amLoop ::
    "synth_params \<Rightarrow> nat \<Rightarrow> real \<Rightarrow> real list \<Rightarrow> nat \<Rightarrow> droplet list \<times> real list
      \<Rightarrow> (droplet list \<times> real list) option" where
  "amLoop p stepIdx w0mm f i st =
     (if i < length f
      then amLoop p stepIdx w0mm f (i + stepIdx) (amStep p w0mm f i st)
      else Some st)"

definition weights :: "real list" where
  "weights = [7 / 16, 5 / 16, 3 / 16, 1 / 16]"

text \<open>The inner loop of DITHER, \<open>k\<close> from 1 to 4, on \<open>fCopy\<close>.\<close>

definition diffuse :: "real list \<Rightarrow> nat \<Rightarrow> real \<Rightarrow> real list" where
  "diffuse fCopy i err =
     fold (\<lambda>k fc. if i + k < length fc then fc[i + k := fc ! (i + k) + err * weights ! (k - 1)]
                   else fc)
       [1, 2, 3, 4] fCopy"

text \<open>
  The body of the DITHER loop on \<open>fCopy\<close>, \<open>g\<close> and the droplets. \<open>i % stepIdx\<close> is
  \<open>NaN\<close> for a \<open>stepIdx\<close> of 0.
\<close>

definition ditherStep :: "synth_params \<Rightarrow> nat \<Rightarrow> real \<Rightarrow> nat
    \<Rightarrow> real list \<times> real list \<times> droplet list \<Rightarrow> real list \<times> real list \<times> droplet list" where
  "ditherStep p stepIdx w0mm i st =
     (case st of (fCopy, g, drops) \<Rightarrow>
        (let v = clamp (fCopy ! i) 0 1;
             out = (if threshold p \<le> v then 1 else 0);
             err = v - out;
             g' = g[i := out];
             fCopy' = diffuse fCopy i err;
             drops' = (if stepIdx \<noteq> 0 \<and> i mod stepIdx = 0 \<and> 0 < out
                       then drops @ [dropAt p i w0mm 1] else drops)
         in (fCopy', g', drops')))"

text \<open>
  The synthesis step of \<open>recompute\<close>: the droplets and the signal \<open>g\<close> for the
  intensities \<open>f\<close>.
\<close>

definition synthesize :: "mode \<Rightarrow> synth_params \<Rightarrow> nat \<Rightarrow> real list
    \<Rightarrow> (droplet list \<times> real list) option" where
  "synthesize m p stepIdx f =
     (let g = replicate (length f) 0
      in case m of
           PWM \<Rightarrow> pwmLoop p stepIdx (max 0 (widthMaxPx p - widthMinPx p)) f 0 ([], g)
         | AM \<Rightarrow> amLoop p stepIdx (1 / 2 * (widthMinMm p + widthMaxMm p)) f 0 ([], g)
         | DITHER \<Rightarrow>
             (case fold (ditherStep p stepIdx (1 / 2 * (widthMinMm p + widthMaxMm p)))
                     [0..<length f] (f, g, []) of
                (fCopy, g', drops) \<Rightarrow> Some (drops, g'))
         | OtherMode \<Rightarrow> Some ([], g))"

text \<open>
  Error diffusion as a recurrence: the value of sample \<open>i\<close> once the errors of the four
  samples before it have been added, with the weights 7/16, 5/16, 3/16 and 1/16 for the
  samples 1, 2, 3 and 4 places back; the output it is quantised to; and its error.
\<close>

definition quantize :: "real \<Rightarrow> real \<Rightarrow> real" where
  "quantize thr a = (if thr \<le> clamp a 0 1 then 1 else 0)"

definition quantError :: "real \<Rightarrow> real \<Rightarrow> real" where
  "quantError thr a = clamp a 0 1 - quantize thr a"

fun diffused :: "real \<Rightarrow> real list \<Rightarrow> nat \<Rightarrow> real" where
  "diffused thr f i =
     f ! i
     + (if 1 \<le> i then 7 / 16 * quantError thr (diffused thr f (i - 1)) else 0)
     + (if 2 \<le> i then 5 / 16 * quantError thr (diffused thr f (i - 2)) else 0)
     + (if 3 \<le> i then 3 / 16 * quantError thr (diffused thr f (i - 3)) else 0)
     + (if 4 \<le> i then 1 / 16 * quantError thr (diffused thr f (i - 4)) else 0)"

declare diffused.simps [simp del]

text \<open>The parameters the component starts with.\<close>

definition params0 :: synth_params where
  "params0 = \<lparr>sampleStepPx = 2, mmPerPixel = 1 / 5, feedSpeed = 80, widthMinPx = 1,
     widthMaxPx = 5, widthMinMm = 1 / 5, widthMaxMm = 1, threshold = 1 / 2\<rparr>"

text \<open>
  The value of sample \<open>j\<close> when only the errors of the samples before \<open>i\<close> have been
  added: what the DITHER loop holds in \<open>fCopy[j]\<close> when it comes to sample \<open>i\<close>.
\<close>

definition diffusedUpTo :: "real \<Rightarrow> real list \<Rightarrow> nat \<Rightarrow> nat \<Rightarrow> real" where
  "diffusedUpTo thr f i j =
     f ! j
     + (if 1 \<le> j \<and> j < i + 1 then 7 / 16 * quantError thr (diffused thr f (j - 1)) else 0)
     + (if 2 \<le> j \<and> j < i + 2 then 5 / 16 * quantError thr (diffused thr f (j - 2)) else 0)
     + (if 3 \<le> j \<and> j < i + 3 then 3 / 16 * quantError thr (diffused thr f (j - 3)) else 0)
     + (if 4 \<le> j \<and> j < i + 4 then 1 / 16 * quantError thr (diffused thr f (j - 4)) else 0)"

section \<open>Compiling segments: the degenerate and the single-segment case\<close>

text \<open>
  C3. Whatever the tube length, the feed speed, the step cap and the calibration,
  compiling an empty or an absent segment set returns exactly the one step
  \<open>{ch0: 0, ch1: 70, duration: 1500}\<close>; in particular the result is not empty.
\<close>

theorem segmentsToEHDSteps_empty:
  "segmentsToEHDSteps None feed maxSteps cal tubeLengthCm
     = [\<lparr>ch0 = Fin 0, ch1 = Fin 70, duration = Fin 1500\<rparr>]
   \<and> segmentsToEHDSteps (Some []) feed maxSteps cal tubeLengthCm
     = [\<lparr>ch0 = Fin 0, ch1 = Fin 70, duration = Fin 1500\<rparr>]
   \<and> segmentsToEHDSteps None feed maxSteps cal tubeLengthCm \<noteq> []
   \<and> segmentsToEHDSteps (Some []) feed maxSteps cal tubeLengthCm \<noteq> []"
  by (simp add: segmentsToEHDSteps_def)

section \<open>The segment editor keeps segments apart\<close>

lemma segmentsOverlap_sym: "segmentsOverlap a b = segmentsOverlap b a"
  by (auto simp: segmentsOverlap_def)

lemma nonOverlapping_Cons:
  "nonOverlapping (x # xs) = ((\<forall>y\<in>set xs. \<not> segmentsOverlap x y) \<and> nonOverlapping xs)"
  by (simp add: nonOverlapping_def)

lemma nonOverlapping_insort:
  "nonOverlapping (insort_key startCm x xs) = nonOverlapping (x # xs)"
proof (induction xs)
  case Nil
  then show ?case by simp
next
  case (Cons y ys)
  then show ?case
    by (auto simp: nonOverlapping_Cons set_insort_key segmentsOverlap_sym[of y x])
qed

lemma nonOverlapping_sort:
  "nonOverlapping (sort_key startCm xs) = nonOverlapping xs"
proof (induction xs)
  case Nil
  then show ?case by simp
next
  case (Cons x xs)
  have "sort_key startCm (x # xs) = insort_key startCm x (sort_key startCm xs)"
    by (simp add: sort_key_def)
  then show ?case using Cons
    by (simp add: nonOverlapping_insort nonOverlapping_Cons)
qed

text \<open>In a sorted, valid, non-overlapping list every segment ends before the later ones start.\<close>

lemma sorted_nonOverlapping_ends:
  assumes "sorted (map startCm (s # ss))" "nonOverlapping (s # ss)"
    "\<forall>t\<in>set ss. validSegment t" "t \<in> set ss"
  shows "endCm s \<le> startCm t"
proof -
  have "startCm s \<le> startCm t" using assms(1,4) by auto
  moreover have "startCm t < endCm t" using assms(3,4) by (simp add: validSegment_def)
  moreover have "\<not> segmentsOverlap s t" using assms(2,4) by (simp add: nonOverlapping_Cons)
  ultimately show ?thesis by (auto simp: segmentsOverlap_def)
qed




















section \<open>The single-segment example\<close>

lemma lerp_one: "lerp a b 1 = b"
  by (simp add: lerp_def)

lemma js_round_of_int: "js_round (of_int k) = k"
  by (simp add: js_round_def)

text \<open>
  C4. The single segment \<open>{startCm: 0, endCm: 5, densityLevel: 10}\<close> at feed speed
  10 mm/s over a tube of 15 cm compiles to exactly two steps, the segment's
  \<open>{ch0: 80, ch1: 70, duration: 5000}\<close> and the trailing rest
  \<open>{ch0: 0, ch1: 70, duration: 10000}\<close>, with the built-in presets (no calibration
  given) as with any calibration whose dense \<open>ch0\<close> is 80 and whose \<open>ch1\<close> is 70, for
  any step cap of at least one.
\<close>

theorem segmentsToEHDSteps_single_segment:
  assumes "0 < maxSteps"
    and "cal = None \<or> (\<exists>c. cal = Some c \<and> denseCh0 c = 80 \<and> cal_ch1 c = 70)"
  shows "segmentsToEHDSteps (Some [\<lparr>startCm = 0, endCm = 5, densityLevel = 10\<rparr>])
           10 maxSteps cal 15
         = [\<lparr>ch0 = Fin 80, ch1 = Fin 70, duration = Fin 5000\<rparr>,
            \<lparr>ch0 = Fin 0, ch1 = Fin 70, duration = Fin 10000\<rparr>]"
proof -
  have r: "js_round 80 = 80" "js_round 5000 = 5000" "js_round 10000 = 10000"
    using js_round_of_int[of 80] js_round_of_int[of 5000] js_round_of_int[of 10000]
    by simp_all
  show ?thesis using assms
    by (auto simp add: segmentsToEHDSteps_def segmentStep_def gapStep_def
        densityLevelToEHDParams_def DENSE_PARAMS_def SPARSE_PARAMS_def clamp_def lerp_one
        js_div_def r)
qed

theorem segmentsToEHDSteps_single_segment_witness:
  "(0::int) < 50 \<and> denseCh0 calibrationParams0 = 80 \<and> cal_ch1 calibrationParams0 = 70
   \<and> segmentsToEHDSteps (Some [\<lparr>startCm = 0, endCm = 5, densityLevel = 10\<rparr>])
        10 50 (Some calibrationParams0) 15
      = [\<lparr>ch0 = Fin 80, ch1 = Fin 70, duration = Fin 5000\<rparr>,
         \<lparr>ch0 = Fin 0, ch1 = Fin 70, duration = Fin 10000\<rparr>]"
  using segmentsToEHDSteps_single_segment[of 50 "Some calibrationParams0"]
  by (simp add: calibrationParams0_def DENSE_PARAMS_def SPARSE_PARAMS_def)

section \<open>Every step lasts at least a second\<close>












section \<open>The steps as a tiling of the tube\<close>

lemma ehdLoop_uncapped:
  assumes "int (length steps) + 2 * int (length S) \<le> maxSteps + 1"
  shows "(case ehdLoop feed maxSteps cal S steps cur of
            (st, c) \<Rightarrow> if c < tube then st @ [gapStep (tube - c) feed] else st)
         = steps @ emittedSteps feed cal tube cur S"
  using assms
proof (induction S arbitrary: steps cur)
  case Nil
  then show ?case by simp
next
  case (Cons s ss)
  let ?steps2 = "(if cur < startCm s then steps @ [gapStep (startCm s - cur) feed] else steps)
                   @ [segmentStep s feed cal]"
  have run: "int (length steps) < maxSteps" using Cons.prems by simp
  have "int (length ?steps2) + 2 * int (length ss) \<le> maxSteps + 1" using Cons.prems by simp
  from Cons.IH[OF this, of "endCm s"] run show ?case by (simp add: Let_def)
qed

lemma segmentsToEHDSteps_uncapped:
  assumes "segs \<noteq> []" "2 * int (length segs) \<le> maxSteps + 1"
  shows "segmentsToEHDSteps (Some segs) feed maxSteps cal tube
         = emittedSteps feed cal tube 0 (sort_key startCm segs)"
proof -
  have "int (length ([]::step list)) + 2 * int (length (sort_key startCm segs)) \<le> maxSteps + 1"
    using assms(2) by simp
  from ehdLoop_uncapped[OF this, where feed=feed and cal=cal and cur=0 and tube=tube] assms(1)
  show ?thesis
    by (simp add: segmentsToEHDSteps_def split: prod.splits)
qed

lemma exact_duration:
  assumes "0 < feed" "feedTimeMs feed L \<in> \<int>" "1000 \<le> feedTimeMs feed L"
  shows "js_times (js_times (Math_max (Fin 1000)
            (Math_round (js_times (js_div (L * 10) feed) 1000))) (1 / 1000)) feed
         = Fin (10 * L)"
proof -
  from assms(2) obtain k :: int where k: "feedTimeMs feed L = of_int k" by (auto elim: Ints_cases)
  have d: "js_times (js_div (L * 10) feed) 1000 = Fin (of_int k)"
    using assms(1) k by (simp add: js_div_def feedTimeMs_def)
  have "Math_max (Fin 1000) (Math_round (Fin (of_int k))) = Fin (of_int k)"
    using assms(3) k by (simp add: js_round_def)
  moreover have "real_of_int k * (1 / 1000) * feed = 10 * L"
    using assms(1) k[symmetric] by (simp add: feedTimeMs_def field_simps)
  ultimately show ?thesis by (simp add: d)
qed

lemma gapStep_exact:
  assumes "0 < feed" "feedTimeMs feed L \<in> \<int>" "1000 \<le> feedTimeMs feed L"
  shows "stepLengthMm feed (gapStep L feed) = Fin (10 * L)"
  using exact_duration[OF assms] by (simp add: stepLengthMm_def gapStep_def)

lemma segmentStep_exact:
  assumes "0 < feed" "feedTimeMs feed (endCm s - startCm s) \<in> \<int>"
    "1000 \<le> feedTimeMs feed (endCm s - startCm s)"
  shows "stepLengthMm feed (segmentStep s feed cal) = Fin (10 * (endCm s - startCm s))"
  using exact_duration[OF assms] by (simp add: stepLengthMm_def segmentStep_def Let_def)

lemma coverFrom_emittedSteps:
  assumes "0 < feed"
    and grid: "\<forall>p\<in>B. \<forall>q\<in>B. p < q \<longrightarrow> feedTimeMs feed (q - p) \<in> \<int> \<and> 1000 \<le> feedTimeMs feed (q - p)"
    and "tube \<in> B" "cur \<in> B" "\<forall>s\<in>set S. startCm s \<in> B \<and> endCm s \<in> B"
    and "chained cur S"
  shows "coverFrom (10 * cur) (map (stepLengthMm feed) (emittedSteps feed cal tube cur S))
         = Some (tubeTiles tube cur S)"
  using assms(4-)
proof (induction S arbitrary: cur)
  case Nil
  show ?case
  proof (cases "cur < tube")
    case True
    then have "stepLengthMm feed (gapStep (tube - cur) feed) = Fin (10 * (tube - cur))"
      using grid Nil.prems(1) assms(3) by (intro gapStep_exact[OF assms(1)]) auto
    then show ?thesis using True by simp
  next
    case False
    then show ?thesis by simp
  qed
next
  case (Cons s ss)
  have inB: "startCm s \<in> B" "endCm s \<in> B" using Cons.prems(2) by auto
  have ch: "cur \<le> startCm s" "startCm s < endCm s" "chained (endCm s) ss"
    using Cons.prems(3) by auto
  have seg: "stepLengthMm feed (segmentStep s feed cal) = Fin (10 * (endCm s - startCm s))"
    using grid inB ch(2) by (intro segmentStep_exact[OF assms(1)]) auto
  have rest: "coverFrom (10 * endCm s)
       (map (stepLengthMm feed) (emittedSteps feed cal tube (endCm s) ss))
     = Some (tubeTiles tube (endCm s) ss)"
    using Cons.IH[OF inB(2) _ ch(3)] Cons.prems(2) by simp
  have e: "10 * startCm s + 10 * (endCm s - startCm s) = 10 * endCm s" by simp
  show ?case
  proof (cases "cur < startCm s")
    case True
    then have gap: "stepLengthMm feed (gapStep (startCm s - cur) feed) = Fin (10 * (startCm s - cur))"
      using grid Cons.prems(1) inB(1) by (intro gapStep_exact[OF assms(1)]) auto
    have e2: "10 * cur + 10 * (startCm s - cur) = 10 * startCm s" by simp
    show ?thesis using True by (simp add: gap seg e e2 rest)
  next
    case False
    then have "cur = startCm s" using ch(1) by simp
    then show ?thesis by (simp add: seg e rest)
  qed
qed

lemma chained_later:
  "chained cur S \<Longrightarrow> \<forall>t\<in>set S. cur \<le> startCm t \<and> startCm t < endCm t"
proof (induction S arbitrary: cur)
  case Nil
  then show ?case by simp
next
  case (Cons s ss)
  have "\<forall>t\<in>set ss. endCm s \<le> startCm t \<and> startCm t < endCm t"
    using Cons.IH[of "endCm s"] Cons.prems by simp
  then show ?case using Cons.prems by fastforce
qed

lemma tubeTiles_proper:
  "chained cur S \<Longrightarrow> \<forall>(a, b)\<in>set (tubeTiles tube cur S). 10 * cur \<le> a \<and> a < b"
proof (induction S arbitrary: cur)
  case Nil
  then show ?case by simp
next
  case (Cons s ss)
  have "\<forall>(a, b)\<in>set (tubeTiles tube (endCm s) ss). 10 * endCm s \<le> a \<and> a < b"
    using Cons.IH[of "endCm s"] Cons.prems by simp
  then show ?case using Cons.prems by fastforce
qed

lemma tubeTiles_segments:
  "\<forall>s\<in>set S. (10 * startCm s, 10 * endCm s) \<in> set (tubeTiles tube cur S)"
  by (induction S arbitrary: cur) auto

lemma tubeTiles_last:
  assumes "\<forall>s\<in>set S. endCm s \<le> tube" "tubeTiles tube cur S \<noteq> []"
  shows "snd (last (tubeTiles tube cur S)) = 10 * tube"
  using assms
proof (induction S arbitrary: cur)
  case Nil
  then show ?case by (simp split: if_splits)
next
  case (Cons s ss)
  show ?case
  proof (cases "tubeTiles tube (endCm s) ss = []")
    case True
    then have "ss = []" by (cases ss) auto
    then have "\<not> endCm s < tube" using True by (simp split: if_splits)
    then have "endCm s = tube" using Cons.prems(1) by simp
    then show ?thesis using True by simp
  next
    case False
    then show ?thesis using Cons.IH[of "endCm s"] Cons.prems(1) by simp
  qed
qed

lemma tubeTiles_gaps:
  assumes "chained cur S"
  shows "\<forall>(a, b)\<in>set (tubeTiles tube cur S).
           (\<exists>s\<in>set S. a = 10 * startCm s \<and> b = 10 * endCm s)
           \<or> (\<forall>s\<in>set S. b \<le> 10 * startCm s \<or> 10 * endCm s \<le> a)"
  using assms
proof (induction S arbitrary: cur)
  case Nil
  then show ?case by simp
next
  case (Cons s ss)
  have ch: "cur \<le> startCm s" "startCm s < endCm s" "chained (endCm s) ss"
    using Cons.prems by auto
  have later: "\<forall>t\<in>set ss. endCm s \<le> startCm t" using chained_later[OF ch(3)] by simp
  have first: "\<forall>t\<in>set (s # ss). 10 * startCm s \<le> 10 * startCm t"
    using later ch(2) by fastforce
  have rest: "\<forall>(a, b)\<in>set (tubeTiles tube (endCm s) ss).
           (\<exists>t\<in>set ss. a = 10 * startCm t \<and> b = 10 * endCm t)
           \<or> (\<forall>t\<in>set ss. b \<le> 10 * startCm t \<or> 10 * endCm t \<le> a)"
    using Cons.IH[OF ch(3)] .
  have after: "\<forall>(a, b)\<in>set (tubeTiles tube (endCm s) ss). 10 * endCm s \<le> a"
    using tubeTiles_proper[OF ch(3), of tube] by fastforce
  have "(\<exists>t\<in>set (s # ss). a = 10 * startCm t \<and> b = 10 * endCm t)
           \<or> (\<forall>t\<in>set (s # ss). b \<le> 10 * startCm t \<or> 10 * endCm t \<le> a)"
    if ab: "(a, b) \<in> set (tubeTiles tube cur (s # ss))" for a b
  proof -
    from ab consider "(a, b) = (10 * cur, 10 * startCm s)"
      | "(a, b) = (10 * startCm s, 10 * endCm s)"
      | "(a, b) \<in> set (tubeTiles tube (endCm s) ss)"
      by (auto split: if_splits)
    then show ?thesis
    proof cases
      case 1
      then show ?thesis using first by auto
    next
      case 2
      then show ?thesis by auto
    next
      case 3
      then show ?thesis using rest after by fastforce
    qed
  qed
  then show ?case by blast
qed

lemma chained_sorted:
  assumes "sorted (map startCm S)" "nonOverlapping S" "\<forall>s\<in>set S. validSegment s"
    "\<forall>s\<in>set S. cur \<le> startCm s"
  shows "chained cur S"
  using assms
proof (induction S arbitrary: cur)
  case Nil
  then show ?case by simp
next
  case (Cons s ss)
  have "\<forall>t\<in>set ss. endCm s \<le> startCm t"
    using sorted_nonOverlapping_ends[OF Cons.prems(1,2)] Cons.prems(3) by simp
  then have "chained (endCm s) ss"
    using Cons.IH[of "endCm s"] Cons.prems(1,2,3) by (simp add: nonOverlapping_Cons)
  then show ?case using Cons.prems(3,4) by (simp add: validSegment_def)
qed


lemma feedTimeMs_diff: "feedTimeMs feed (q - p) = feedTimeMs feed q - feedTimeMs feed p"
  by (simp add: feedTimeMs_def left_diff_distrib diff_divide_distrib)

text \<open>
  C2, as the code has it. A non-empty set of valid, pairwise non-overlapping segments
  within \<open>[0, tubeLengthCm]\<close>, few enough for the cap \<open>maxSteps\<close> not to cut the loop,
  compiles at a positive feed speed to steps that tile the tube exactly, provided that
  every boundary (0, each segment start and end, the end of the tube) is reached after a
  whole number of milliseconds and that two different boundaries are at least 1000 ms
  of feed apart: the lengths \<open>duration / 1000 * feedSpeed\<close> of the steps, laid end to
  end from 0, end at the end of the tube, each segment is one of the intervals, and the
  other intervals are gaps that meet no segment.
\<close>

theorem segmentsToEHDSteps_tiles_tube:
  assumes "segs \<noteq> []"
    and "\<forall>s\<in>set segs. validSegment s"
    and "nonOverlapping segs"
    and "\<forall>s\<in>set segs. 0 \<le> startCm s \<and> endCm s \<le> tube"
    and "0 < feed"
    and "2 * int (length segs) \<le> maxSteps + 1"
    and "\<forall>p\<in>set (boundaries tube segs). feedTimeMs feed p \<in> \<int>"
    and "\<forall>p\<in>set (boundaries tube segs). \<forall>q\<in>set (boundaries tube segs).
           p < q \<longrightarrow> 1000 \<le> feedTimeMs feed (q - p)"
  shows "tilesTube feed tube segs (segmentsToEHDSteps (Some segs) feed maxSteps cal tube)"
proof -
  let ?S = "sort_key startCm segs"
  let ?B = "set (boundaries tube segs)"
  have grid: "\<forall>p\<in>?B. \<forall>q\<in>?B. p < q
      \<longrightarrow> feedTimeMs feed (q - p) \<in> \<int> \<and> 1000 \<le> feedTimeMs feed (q - p)"
    using assms(7,8) by (simp add: feedTimeMs_diff[of feed])
  have inB: "tube \<in> ?B" "0 \<in> ?B" "\<forall>s\<in>set ?S. startCm s \<in> ?B \<and> endCm s \<in> ?B"
    by (auto simp: boundaries_def)
  have ch: "chained 0 ?S"
    using assms(2,3,4) by (intro chained_sorted) (simp_all add: nonOverlapping_sort)
  have steps: "segmentsToEHDSteps (Some segs) feed maxSteps cal tube
         = emittedSteps feed cal tube 0 ?S"
    using assms(1,6) by (rule segmentsToEHDSteps_uncapped)
  have "coverFrom (10 * 0) (map (stepLengthMm feed) (emittedSteps feed cal tube 0 ?S))
         = Some (tubeTiles tube 0 ?S)"
    using assms(5) grid inB ch by (rule coverFrom_emittedSteps)
  then have cover: "coverFrom 0 (map (stepLengthMm feed)
        (segmentsToEHDSteps (Some segs) feed maxSteps cal tube)) = Some (tubeTiles tube 0 ?S)"
    by (simp add: steps)
  have "?S \<noteq> []" using assms(1) by (metis length_sort list.size(3) length_0_conv)
  then have ne: "tubeTiles tube 0 ?S \<noteq> []" by (cases ?S) auto
  have ends: "\<forall>s\<in>set ?S. endCm s \<le> tube" using assms(4) by simp
  have t1: "snd (last (tubeTiles tube 0 ?S)) = 10 * tube"
    using ends ne by (rule tubeTiles_last)
  have t2: "\<forall>(a, b)\<in>set (tubeTiles tube 0 ?S). a < b"
    using tubeTiles_proper[OF ch, of tube] by fastforce
  have t3: "\<forall>s\<in>set segs. (10 * startCm s, 10 * endCm s) \<in> set (tubeTiles tube 0 ?S)"
    using tubeTiles_segments[of ?S tube 0] by simp
  have t4: "\<forall>(a, b)\<in>set (tubeTiles tube 0 ?S).
           (\<exists>s\<in>set segs. a = 10 * startCm s \<and> b = 10 * endCm s)
           \<or> (\<forall>s\<in>set segs. b \<le> 10 * startCm s \<or> 10 * endCm s \<le> a)"
    using tubeTiles_gaps[OF ch, of tube] by simp
  show ?thesis
    unfolding tilesTube_def cover using ne t1 t2 t3 t4 by simp
qed

theorem segmentsToEHDSteps_tiles_tube_witness:
  "tilesTube 10 15 [\<lparr>startCm = 0, endCm = 5, densityLevel = 10\<rparr>]
     (segmentsToEHDSteps (Some [\<lparr>startCm = 0, endCm = 5, densityLevel = 10\<rparr>]) 10 50 None 15)"
proof -
  have z: "(0::real) \<in> \<int>" "(5000::real) \<in> \<int>" "(15000::real) \<in> \<int>" by simp_all
  show ?thesis
    by (rule segmentsToEHDSteps_tiles_tube)
      (simp_all add: validSegment_def nonOverlapping_def boundaries_def feedTimeMs_def z)
qed

lemmas compile_eval = segmentsToEHDSteps_def segmentStep_def gapStep_def
  densityLevelToEHDParams_def DENSE_PARAMS_def SPARSE_PARAMS_def clamp_def lerp_def
  js_div_def js_round_def tilesTube_def stepLengthMm_def

text \<open>
  C2 as stated fails. A segment of 0.5 cm at 10 mm/s takes 500 ms and is given the
  minimum of 1000 ms, which stands for 10 mm on a tube of 5 mm. A segment of 1 cm at
  3 mm/s is rounded to 3333 ms, which stands for 9.999 mm. The empty set compiles to
  one step of 1500 ms whatever the tube length. With a cap of one step, the second
  and third of three segments are left out and covered by one rest step.
\<close>

theorem segmentsToEHDSteps_tiles_tube_counterexample:
  "nonOverlapping [\<lparr>startCm = 0, endCm = 1 / 2, densityLevel = 5\<rparr>]
   \<and> list_all (\<lambda>s. validSegment s \<and> 0 \<le> startCm s \<and> endCm s \<le> 1 / 2)
         [\<lparr>startCm = 0, endCm = 1 / 2, densityLevel = 5\<rparr>]
   \<and> map (stepLengthMm 10)
        (segmentsToEHDSteps (Some [\<lparr>startCm = 0, endCm = 1 / 2, densityLevel = 5\<rparr>])
           10 50 None (1 / 2))
      = [Fin 10]
   \<and> \<not> tilesTube 10 (1 / 2) [\<lparr>startCm = 0, endCm = 1 / 2, densityLevel = 5\<rparr>]
        (segmentsToEHDSteps (Some [\<lparr>startCm = 0, endCm = 1 / 2, densityLevel = 5\<rparr>])
           10 50 None (1 / 2))
   \<and> \<not> tilesTube 3 1 [\<lparr>startCm = 0, endCm = 1, densityLevel = 5\<rparr>]
        (segmentsToEHDSteps (Some [\<lparr>startCm = 0, endCm = 1, densityLevel = 5\<rparr>]) 3 50 None 1)
   \<and> \<not> tilesTube 10 1 [] (segmentsToEHDSteps (Some []) 10 50 None 1)
   \<and> \<not> tilesTube 10 3
        [\<lparr>startCm = 0, endCm = 1, densityLevel = 5\<rparr>,
         \<lparr>startCm = 1, endCm = 2, densityLevel = 5\<rparr>,
         \<lparr>startCm = 2, endCm = 3, densityLevel = 5\<rparr>]
        (segmentsToEHDSteps (Some
           [\<lparr>startCm = 0, endCm = 1, densityLevel = 5\<rparr>,
            \<lparr>startCm = 1, endCm = 2, densityLevel = 5\<rparr>,
            \<lparr>startCm = 2, endCm = 3, densityLevel = 5\<rparr>]) 10 1 None 3)"
  by (simp add: compile_eval nonOverlapping_def validSegment_def)

section \<open>Sampling stays inside the raster\<close>

lemma clamp_range: "lo \<le> hi \<Longrightarrow> lo \<le> clamp v lo hi \<and> clamp v lo hi \<le> hi"
  by (simp add: clamp_def)

lemma clamp_idem: "lo \<le> hi \<Longrightarrow> clamp (clamp v lo hi) lo hi = clamp v lo hi"
  by (simp add: clamp_def)

lemma floor_clamp_range:
  assumes "1 \<le> n"
  shows "0 \<le> \<lfloor>clamp v 0 (real n - 1)\<rfloor> \<and> \<lfloor>clamp v 0 (real n - 1)\<rfloor> \<le> int n - 1"
proof -
  have r: "0 \<le> clamp v 0 (real n - 1) \<and> clamp v 0 (real n - 1) \<le> real n - 1"
    using assms by (intro clamp_range) simp
  have "\<lfloor>clamp v 0 (real n - 1)\<rfloor> \<le> \<lfloor>real n - 1\<rfloor>" using r by (intro floor_mono) simp
  moreover have "\<lfloor>real n - 1\<rfloor> = int n - 1" by linarith
  ultimately show ?thesis using r by simp
qed

lemma pixelIndex_bounds:
  assumes "validImage img"
  shows "0 \<le> pixelIndex img x y \<and> pixelIndex img x y + 3 < int (length (data img))"
proof -
  let ?w = "int (width img)" and ?h = "int (height img)"
  let ?xi = "\<lfloor>clamp x 0 (real (width img) - 1)\<rfloor>"
  let ?yi = "\<lfloor>clamp y 0 (real (height img) - 1)\<rfloor>"
  have w: "1 \<le> width img" and h: "1 \<le> height img"
    and len: "int (length (data img)) = 4 * ?w * ?h"
    using assms by (simp_all add: validImage_def)
  have xi: "0 \<le> ?xi" "?xi \<le> ?w - 1" using floor_clamp_range[OF w, of x] by simp_all
  have yi: "0 \<le> ?yi" "?yi \<le> ?h - 1" using floor_clamp_range[OF h, of y] by simp_all
  have "?yi * ?w \<le> (?h - 1) * ?w" using yi(2) by (intro mult_right_mono) simp_all
  then have up: "?yi * ?w + ?xi \<le> ?h * ?w - 1" using xi(2) by (simp add: algebra_simps)
  have lo: "0 \<le> ?yi * ?w + ?xi" using xi(1) yi(1) by simp
  have "pixelIndex img x y = (?yi * ?w + ?xi) * 4" by (simp add: pixelIndex_def Let_def)
  then show ?thesis using lo up len by (simp add: algebra_simps)
qed

lemma dataAt_Some: "0 \<le> i \<Longrightarrow> i < int (length d) \<Longrightarrow> dataAt d i = Some (d ! nat i)"
  by (simp add: dataAt_def)

lemma grayscaleAt_via_clamp:
  assumes "validImage img"
  shows "0 \<le> pixelIndex img x y \<and> pixelIndex img x y + 2 < int (length (data img))
       \<and> pixelIndex img x y
           = 4 * (\<lfloor>clamp y 0 (real (height img) - 1)\<rfloor> * int (width img)
                  + \<lfloor>clamp x 0 (real (width img) - 1)\<rfloor>)
       \<and> 0 \<le> \<lfloor>clamp x 0 (real (width img) - 1)\<rfloor>
       \<and> \<lfloor>clamp x 0 (real (width img) - 1)\<rfloor> < int (width img)
       \<and> 0 \<le> \<lfloor>clamp y 0 (real (height img) - 1)\<rfloor>
       \<and> \<lfloor>clamp y 0 (real (height img) - 1)\<rfloor> < int (height img)
       \<and> grayscaleAt img x y
           = Fin ((299 / 1000 * real (unat (data img ! nat (pixelIndex img x y)))
                   + 587 / 1000 * real (unat (data img ! nat (pixelIndex img x y + 1)))
                   + 114 / 1000 * real (unat (data img ! nat (pixelIndex img x y + 2)))) / 255)
       \<and> grayscaleAt img x y
           = grayscaleAt img (clamp x 0 (real (width img) - 1)) (clamp y 0 (real (height img) - 1))"
proof -
  have w: "1 \<le> width img" and h: "1 \<le> height img"
    using assms by (simp_all add: validImage_def)
  have b: "0 \<le> pixelIndex img x y" "pixelIndex img x y + 3 < int (length (data img))"
    using pixelIndex_bounds[OF assms, of x y] by simp_all
  have g: "grayscaleAt img x y
           = Fin ((299 / 1000 * real (unat (data img ! nat (pixelIndex img x y)))
                   + 587 / 1000 * real (unat (data img ! nat (pixelIndex img x y + 1)))
                   + 114 / 1000 * real (unat (data img ! nat (pixelIndex img x y + 2)))) / 255)"
    using b by (simp add: grayscaleAt_def Let_def dataAt_Some)
  have "pixelIndex img (clamp x 0 (real (width img) - 1)) (clamp y 0 (real (height img) - 1))
        = pixelIndex img x y"
    using w h by (simp add: pixelIndex_def Let_def clamp_idem)
  then have st: "grayscaleAt img x y
           = grayscaleAt img (clamp x 0 (real (width img) - 1)) (clamp y 0 (real (height img) - 1))"
    by (simp add: grayscaleAt_def)
  show ?thesis
    using b g st floor_clamp_range[OF w, of x] floor_clamp_range[OF h, of y]
    by (simp add: pixelIndex_def Let_def)
qed

lemma clamp_nearestCoord: "1 \<le> n \<Longrightarrow> clamp x 0 (real n - 1) = nearestCoord n x"
  by (auto simp: clamp_def nearestCoord_def)

lemma nearestCoord_range:
  "1 \<le> n \<Longrightarrow> 0 \<le> nearestCoord n x \<and> nearestCoord n x \<le> real n - 1"
  by (auto simp: nearestCoord_def)

lemma nearestCoord_nearest:
  "0 \<le> z \<Longrightarrow> z \<le> real n - 1 \<Longrightarrow> \<bar>x - nearestCoord n x\<bar> \<le> \<bar>x - z\<bar>"
  by (auto simp: nearestCoord_def)

text \<open>
  C9. On a raster with at least one pixel and four bytes for each, and for all real
  coordinates, inside the raster or not, \<open>grayscaleAt\<close> samples the pixel that holds
  \<open>(cx, cy)\<close>, where \<open>cx\<close> is \<open>0\<close> for \<open>x < 0\<close>, \<open>width - 1\<close> for \<open>x > width - 1\<close> and
  \<open>x\<close> itself otherwise, and \<open>cy\<close> likewise with \<open>height\<close>. \<open>cx\<close> and \<open>cy\<close> lie in
  \<open>[0, width - 1]\<close> and \<open>[0, height - 1]\<close> and no point of these intervals is nearer
  to \<open>x\<close> or \<open>y\<close>; the pixel \<open>(\<lfloor>cx\<rfloor>, \<lfloor>cy\<rfloor>)\<close> is one of the raster; the index read is
  \<open>4 (\<lfloor>cy\<rfloor> width + \<lfloor>cx\<rfloor>)\<close> and it and the two after it are inside \<open>data\<close>; the result
  is \<open>(0.299 R + 0.587 G + 0.114 B) / 255\<close> of the three bytes there; and sampling at
  \<open>(x, y)\<close> is sampling at \<open>(cx, cy)\<close>.
\<close>

theorem grayscaleAt_clamped_in_bounds:
  assumes "validImage img"
  shows "0 \<le> nearestCoord (width img) x \<and> nearestCoord (width img) x \<le> real (width img) - 1
       \<and> 0 \<le> nearestCoord (height img) y \<and> nearestCoord (height img) y \<le> real (height img) - 1
       \<and> (\<forall>z. 0 \<le> z \<and> z \<le> real (width img) - 1
              \<longrightarrow> \<bar>x - nearestCoord (width img) x\<bar> \<le> \<bar>x - z\<bar>)
       \<and> (\<forall>z. 0 \<le> z \<and> z \<le> real (height img) - 1
              \<longrightarrow> \<bar>y - nearestCoord (height img) y\<bar> \<le> \<bar>y - z\<bar>)
       \<and> 0 \<le> \<lfloor>nearestCoord (width img) x\<rfloor> \<and> \<lfloor>nearestCoord (width img) x\<rfloor> < int (width img)
       \<and> 0 \<le> \<lfloor>nearestCoord (height img) y\<rfloor> \<and> \<lfloor>nearestCoord (height img) y\<rfloor> < int (height img)
       \<and> pixelIndex img x y
           = 4 * (\<lfloor>nearestCoord (height img) y\<rfloor> * int (width img)
                  + \<lfloor>nearestCoord (width img) x\<rfloor>)
       \<and> 0 \<le> pixelIndex img x y \<and> pixelIndex img x y + 2 < int (length (data img))
       \<and> grayscaleAt img x y
           = Fin ((299 / 1000 * real (unat (data img !
                      nat (4 * (\<lfloor>nearestCoord (height img) y\<rfloor> * int (width img)
                                + \<lfloor>nearestCoord (width img) x\<rfloor>))))
                   + 587 / 1000 * real (unat (data img !
                      nat (4 * (\<lfloor>nearestCoord (height img) y\<rfloor> * int (width img)
                                + \<lfloor>nearestCoord (width img) x\<rfloor>) + 1)))
                   + 114 / 1000 * real (unat (data img !
                      nat (4 * (\<lfloor>nearestCoord (height img) y\<rfloor> * int (width img)
                                + \<lfloor>nearestCoord (width img) x\<rfloor>) + 2)))) / 255)
       \<and> grayscaleAt img x y
           = grayscaleAt img (nearestCoord (width img) x) (nearestCoord (height img) y)"
proof -
  have w: "1 \<le> width img" and h: "1 \<le> height img"
    using assms by (simp_all add: validImage_def)
  have cx: "clamp x 0 (real (width img) - 1) = nearestCoord (width img) x"
    using w by (rule clamp_nearestCoord)
  have cy: "clamp y 0 (real (height img) - 1) = nearestCoord (height img) y"
    using h by (rule clamp_nearestCoord)
  have old: "0 \<le> pixelIndex img x y \<and> pixelIndex img x y + 2 < int (length (data img))
       \<and> pixelIndex img x y
           = 4 * (\<lfloor>clamp y 0 (real (height img) - 1)\<rfloor> * int (width img)
                  + \<lfloor>clamp x 0 (real (width img) - 1)\<rfloor>)
       \<and> 0 \<le> \<lfloor>clamp x 0 (real (width img) - 1)\<rfloor>
       \<and> \<lfloor>clamp x 0 (real (width img) - 1)\<rfloor> < int (width img)
       \<and> 0 \<le> \<lfloor>clamp y 0 (real (height img) - 1)\<rfloor>
       \<and> \<lfloor>clamp y 0 (real (height img) - 1)\<rfloor> < int (height img)
       \<and> grayscaleAt img x y
           = Fin ((299 / 1000 * real (unat (data img ! nat (pixelIndex img x y)))
                   + 587 / 1000 * real (unat (data img ! nat (pixelIndex img x y + 1)))
                   + 114 / 1000 * real (unat (data img ! nat (pixelIndex img x y + 2)))) / 255)
       \<and> grayscaleAt img x y
           = grayscaleAt img (clamp x 0 (real (width img) - 1)) (clamp y 0 (real (height img) - 1))"
    using grayscaleAt_via_clamp[OF assms, of x y] .
  have idx: "pixelIndex img x y
           = 4 * (\<lfloor>nearestCoord (height img) y\<rfloor> * int (width img)
                  + \<lfloor>nearestCoord (width img) x\<rfloor>)"
    using old unfolding cx cy by blast
  have g: "grayscaleAt img x y
           = Fin ((299 / 1000 * real (unat (data img ! nat (pixelIndex img x y)))
                   + 587 / 1000 * real (unat (data img ! nat (pixelIndex img x y + 1)))
                   + 114 / 1000 * real (unat (data img ! nat (pixelIndex img x y + 2)))) / 255)"
    using old by blast
  show ?thesis
    using old nearestCoord_range[OF w, of x] nearestCoord_range[OF h, of y]
      nearestCoord_nearest[of _ "width img" x] nearestCoord_nearest[of _ "height img" y]
      g[unfolded idx]
    unfolding cx cy by blast
qed

theorem grayscaleAt_clamped_in_bounds_witness:
  "validImage image0
   \<and> nearestCoord (width image0) (57 / 10) = 1
   \<and> nearestCoord (height image0) (- 3) = 0
   \<and> pixelIndex image0 (57 / 10) (- 3) = 4
   \<and> grayscaleAt image0 (57 / 10) (- 3) = Fin ((299 / 1000 * 10 + 587 / 1000 * 20 + 114 / 1000 * 30) / 255)
   \<and> grayscaleAt image0 (57 / 10) (- 3) = grayscaleAt image0 1 0"
proof -
  have v: "validImage image0" by (simp add: validImage_def image0_def)
  have c: "nearestCoord (width image0) (57 / 10) = 1" "nearestCoord (height image0) (- 3) = 0"
    by (simp_all add: nearestCoord_def image0_def)
  have wd: "int (width image0) = 2" by (simp add: image0_def)
  have d: "data image0 ! 4 = 10" "data image0 ! 5 = 20" "data image0 ! 6 = 30"
    by (simp_all add: image0_def)
  have t: "pixelIndex image0 (57 / 10) (- 3)
           = 4 * (\<lfloor>nearestCoord (height image0) (- 3)\<rfloor> * int (width image0)
                  + \<lfloor>nearestCoord (width image0) (57 / 10)\<rfloor>)
       \<and> grayscaleAt image0 (57 / 10) (- 3)
           = Fin ((299 / 1000 * real (unat (data image0 !
                      nat (4 * (\<lfloor>nearestCoord (height image0) (- 3)\<rfloor> * int (width image0)
                                + \<lfloor>nearestCoord (width image0) (57 / 10)\<rfloor>))))
                   + 587 / 1000 * real (unat (data image0 !
                      nat (4 * (\<lfloor>nearestCoord (height image0) (- 3)\<rfloor> * int (width image0)
                                + \<lfloor>nearestCoord (width image0) (57 / 10)\<rfloor>) + 1)))
                   + 114 / 1000 * real (unat (data image0 !
                      nat (4 * (\<lfloor>nearestCoord (height image0) (- 3)\<rfloor> * int (width image0)
                                + \<lfloor>nearestCoord (width image0) (57 / 10)\<rfloor>) + 2)))) / 255)
       \<and> grayscaleAt image0 (57 / 10) (- 3)
           = grayscaleAt image0 (nearestCoord (width image0) (57 / 10))
               (nearestCoord (height image0) (- 3))"
    using grayscaleAt_clamped_in_bounds[OF v, of "57 / 10" "- 3"] by blast
  show ?thesis using t v c unfolding c wd by (auto simp add: d)
qed

section \<open>Resampling a straight segment\<close>

lemma binade_eq:
  assumes "2 powi e \<le> \<bar>x\<bar>" "\<bar>x\<bar> < 2 powi (e + 1)" "- 1022 \<le> e"
  shows "binade x = e"
proof -
  have pos: "0 < \<bar>x\<bar>" using assms(1) by (smt (verit) zero_less_power_int)
  have "real_of_int e \<le> log 2 \<bar>x\<bar>"
    using assms(1) pos by (simp add: le_log_iff powr_real_of_int')
  moreover have "log 2 \<bar>x\<bar> < real_of_int (e + 1)"
  proof -
    have "(2::real) powi (e + 1) = 2 powr real_of_int (e + 1)"
      by (rule powr_real_of_int'[symmetric]) simp_all
    then have "\<bar>x\<bar> < 2 powr real_of_int (e + 1)" using assms(2) by simp
    then show ?thesis using pos by (subst log_less_iff) simp_all
  qed
  ultimately have "\<lfloor>log 2 \<bar>x\<bar>\<rfloor> = e" by linarith
  then show ?thesis using assms(3) by (simp add: binade_def)
qed

lemma rnd_eval:
  assumes "2 powi e \<le> \<bar>x\<bar>" "\<bar>x\<bar> < 2 powi (e + 1)" "- 1022 \<le> e"
  shows "rnd x = of_int (roundEven (x * 2 powi (52 - e))) * 2 powi (e - 52)"
proof -
  have "x \<noteq> 0" using assms(1) by (smt (verit) zero_less_power_int)
  then show ?thesis using binade_eq[OF assms] by (simp add: rnd_def)
qed

lemma rnd_0: "rnd 0 = 0"
  by (simp add: rnd_def)

lemma roundEven_ge_floor: "\<lfloor>x\<rfloor> \<le> roundEven x"
  by (simp add: roundEven_def Let_def)

lemma rnd_nonneg: "0 \<le> x \<Longrightarrow> 0 \<le> rnd x"
proof -
  assume x: "0 \<le> x"
  have "0 \<le> x * 2 powi (52 - binade x)" using x by simp
  then have "0 \<le> \<lfloor>x * 2 powi (52 - binade x)\<rfloor>" by simp
  then have "0 \<le> roundEven (x * 2 powi (52 - binade x))"
    using roundEven_ge_floor[of "x * 2 powi (52 - binade x)"] by linarith
  then show ?thesis by (simp add: rnd_def)
qed

lemma dist_nonneg: "0 \<le> dist_pt a b"
  by (simp add: dist_pt_def Math_hypot_def rnd_nonneg)

lemma tAfter_shift: "tAfter s (add64 t s) k = tAfter s t (Suc k)"
  by (induction k) simp_all

lemma emitLoop_run:
  assumes "\<forall>k<n. tAfter s t k \<le> L" "L < tAfter s t n"
  shows "emitLoop a b L s t out
         = Some (out @ map (\<lambda>k. interp a b (div64 (tAfter s t k) L)) [0..<n])"
  using assms
proof (induction n arbitrary: t out)
  case 0
  then show ?case by (subst emitLoop.simps) simp
next
  case (Suc n)
  have le: "t \<le> L" using Suc.prems(1) by (metis tAfter.simps(1) zero_less_Suc)
  have a1: "\<forall>k<n. tAfter s (add64 t s) k \<le> L"
    using Suc.prems(1) by (simp add: tAfter_shift del: tAfter.simps)
  have a2: "L < tAfter s (add64 t s) n"
    using Suc.prems(2) by (simp add: tAfter_shift del: tAfter.simps)
  have ih: "emitLoop a b L s (add64 t s) (out @ [interp a b (div64 t L)])
        = Some ((out @ [interp a b (div64 t L)])
                 @ map (\<lambda>k. interp a b (div64 (tAfter s (add64 t s) k) L)) [0..<n])"
    using a1 a2 by (rule Suc.IH)
  have m: "map (\<lambda>k. interp a b (div64 (tAfter s t k) L)) [0..<Suc n]
           = interp a b (div64 t L)
             # map (\<lambda>k. interp a b (div64 (tAfter s (add64 t s) k) L)) [0..<n]"
    by (simp only: map_upt_Suc tAfter_shift tAfter.simps(1))
  show ?case
    unfolding m using le ih by (subst emitLoop.simps) simp
qed

lemma resampleUniform_straight:
  assumes "\<forall>k<n. tAfter s (sub64 s 0) k \<le> dist_pt a b" "dist_pt a b < tAfter s (sub64 s 0) n"
  shows "resampleUniform [a, b] s
         = Some (a # map (\<lambda>k. interp a b (div64 (tAfter s (sub64 s 0) k) (dist_pt a b))) [0..<n])"
  using emitLoop_run[OF assms, of a b "[a]"] by (simp add: resampleUniform_def)

lemma step_le_iff:
  assumes "0 < s" "0 \<le> L"
  shows "(real j * s \<le> L) = (j \<le> nat \<lfloor>L / s\<rfloor>)"
proof -
  have "(real j * s \<le> L) = (real j \<le> L / s)" using assms(1) by (simp add: pos_le_divide_eq)
  also have "\<dots> = (int j \<le> \<lfloor>L / s\<rfloor>)" by (simp add: le_floor_iff)
  also have "\<dots> = (j \<le> nat \<lfloor>L / s\<rfloor>)"
    using assms by (intro le_nat_iff[symmetric]) simp
  finally show ?thesis .
qed

lemma tAfter_exact:
  assumes "\<forall>j\<le>Suc k. rnd (real j * s) = real j * s"
  shows "tAfter s (sub64 s 0) k = real (Suc k) * s"
  using assms
proof (induction k)
  case 0
  have "rnd (real 1 * s) = real 1 * s" using 0 by (metis One_nat_def le_refl)
  then show ?case by (simp add: sub64_def)
next
  case (Suc k)
  have "tAfter s (sub64 s 0) k = real (Suc k) * s" using Suc.prems by (intro Suc.IH) simp
  moreover have "rnd (real (Suc (Suc k)) * s) = real (Suc (Suc k)) * s"
    using Suc.prems by (metis le_refl)
  moreover have "real (Suc k) * s + s = real (Suc (Suc k)) * s" by (simp add: algebra_simps)
  ultimately show ?case by (simp add: add64_def del: of_nat_Suc)
qed

lemma resampleUniform_exact_steps:
  assumes s: "0 < s" and ex: "\<forall>j\<le>Suc (nat \<lfloor>dist_pt a b / s\<rfloor>). rnd (real j * s) = real j * s"
  shows "resampleUniform [a, b] s
         = Some (a # map (\<lambda>k. interp a b (div64 (real k * s) (dist_pt a b)))
                       [1..<Suc (nat \<lfloor>dist_pt a b / s\<rfloor>)])"
proof -
  let ?L = "dist_pt a b" and ?n = "nat \<lfloor>dist_pt a b / s\<rfloor>"
  have T: "tAfter s (sub64 s 0) k = real (Suc k) * s" if "k \<le> ?n" for k
    using ex that by (intro tAfter_exact) simp
  have a1: "\<forall>k<?n. tAfter s (sub64 s 0) k \<le> ?L"
  proof (intro allI impI)
    fix k assume k: "k < ?n"
    then have "real (Suc k) * s \<le> ?L" using step_le_iff[OF s dist_nonneg, of "Suc k" a b] by simp
    then show "tAfter s (sub64 s 0) k \<le> ?L" using T[of k] k by simp
  qed
  have "\<not> real (Suc ?n) * s \<le> ?L" using step_le_iff[OF s dist_nonneg, of "Suc ?n" a b] by simp
  then have a2: "?L < tAfter s (sub64 s 0) ?n" using T[of ?n] by simp
  have m: "map (\<lambda>k. interp a b (div64 (tAfter s (sub64 s 0) k) ?L)) [0..<?n]
           = map (\<lambda>k. interp a b (div64 (real k * s) ?L)) [1..<Suc ?n]"
  proof -
    have "map (\<lambda>k. interp a b (div64 (real k * s) ?L)) [Suc 0..<Suc ?n]
          = map ((\<lambda>k. interp a b (div64 (real k * s) ?L)) \<circ> Suc) [0..<?n]"
      by (simp only: map_Suc_upt[symmetric] map_map)
    also have "\<dots> = map (\<lambda>k. interp a b (div64 (tAfter s (sub64 s 0) k) ?L)) [0..<?n]"
      using T by (intro map_cong) simp_all
    finally show ?thesis by simp
  qed
  show ?thesis using resampleUniform_straight[OF a1 a2] unfolding m .
qed


lemma roundEven_of_int: "roundEven (of_int k) = k"
  by (simp add: roundEven_def)

lemma rnd_dyadic:
  assumes m: "\<bar>m\<bar> < 2 ^ 53" and e: "- 1074 \<le> e"
  shows "rnd (of_int m * 2 powi e) = of_int m * 2 powi e"
proof (cases "m = 0")
  case True
  then show ?thesis by (simp add: rnd_def)
next
  case False
  let ?x = "real_of_int m * 2 powi e"
  have x0: "?x \<noteq> 0" using False by simp
  have pos: "0 < \<bar>?x\<bar>" using x0 by simp
  have "\<bar>real_of_int m\<bar> < 2 ^ 53" using m by (metis of_int_abs of_int_less_numeral_power_cancel_iff)
  then have "\<bar>?x\<bar> < 2 ^ 53 * 2 powi e"
    by (simp add: abs_mult)
  also have "\<dots> = 2 powi (53 + e)" by (simp add: power_int_add)
  finally have up: "\<bar>?x\<bar> < 2 powi (53 + e)" .
  have "(2::real) powi (53 + e) = 2 powr real_of_int (53 + e)"
    by (rule powr_real_of_int'[symmetric]) simp_all
  then have "\<bar>?x\<bar> < 2 powr real_of_int (53 + e)" using up by simp
  then have "log 2 \<bar>?x\<bar> < real_of_int (53 + e)" using pos by (subst log_less_iff) simp_all
  then have fl: "\<lfloor>log 2 \<bar>?x\<bar>\<rfloor> \<le> 52 + e" by linarith
  have b: "binade ?x - 52 \<le> e" using fl e by (simp add: binade_def)
  define j where "j = nat (e + 52 - binade ?x)"
  have je: "e + 52 - binade ?x = int j" using b by (simp add: j_def)
  have "?x * 2 powi (52 - binade ?x) = real_of_int m * 2 powi (e + (52 - binade ?x))"
    by (simp add: power_int_add)
  also have "e + (52 - binade ?x) = int j" using je by simp
  finally have "?x * 2 powi (52 - binade ?x) = of_int (m * 2 ^ j)" by simp
  then have "roundEven (?x * 2 powi (52 - binade ?x)) = m * 2 ^ j"
    by (simp only: roundEven_of_int)
  then have "rnd ?x = of_int (m * 2 ^ j) * 2 powi (binade ?x - 52)"
    using x0 by (simp add: rnd_def)
  also have "\<dots> = real_of_int m * (2 powi (int j) * 2 powi (binade ?x - 52))" by simp
  also have "2 powi (int j) * 2 powi (binade ?x - 52) = (2::real) powi (int j + (binade ?x - 52))"
    by (simp add: power_int_add)
  also have "int j + (binade ?x - 52) = e" using je by simp
  finally show ?thesis .
qed

lemma rnd_of_int: "\<bar>m\<bar> < 2 ^ 53 \<Longrightarrow> rnd (of_int m) = of_int m"
  using rnd_dyadic[of m 0] by simp

lemma rnd_small:
  shows "rnd 1 = 1" and "rnd 2 = 2" and "rnd 3 = 3" and "rnd 4 = 4" and "rnd 6 = 6"
    and "rnd 7 = 7" and "rnd 8 = 8" and "rnd 9 = 9" and "rnd 10 = 10"
    and "rnd (- 7) = - 7" and "rnd (- 8) = - 8"
    and "rnd (1 / 4) = 1 / 4" and "rnd (1 / 2) = 1 / 2" and "rnd (3 / 4) = 3 / 4"
    and "rnd (3 / 8) = 3 / 8"
  using rnd_of_int[of 1] rnd_of_int[of 2] rnd_of_int[of 3] rnd_of_int[of 4] rnd_of_int[of 6]
    rnd_of_int[of 7] rnd_of_int[of 8] rnd_of_int[of 9] rnd_of_int[of 10]
    rnd_of_int[of "- 7"] rnd_of_int[of "- 8"]
    rnd_dyadic[of 1 "- 2"] rnd_dyadic[of 1 "- 1"] rnd_dyadic[of 3 "- 2"] rnd_dyadic[of 3 "- 3"]
  by (simp_all add: power_int_minus)

lemma hypot_axis: "Math_hypot x 0 = rnd \<bar>x\<bar>" "Math_hypot 0 y = rnd \<bar>y\<bar>"
  by (simp_all add: Math_hypot_def)

lemma pointAt_zero: "pointAt a b 0 = a"
  by (simp add: pointAt_def lerp_def)

lemma euclid_pointAt: "euclid (pointAt a b u) (pointAt a b v) = \<bar>u - v\<bar> * euclid a b"
proof -
  have "(lerp (pt_x a) (pt_x b) u - lerp (pt_x a) (pt_x b) v)\<^sup>2
          + (lerp (pt_y a) (pt_y b) u - lerp (pt_y a) (pt_y b) v)\<^sup>2
        = (u - v)\<^sup>2 * ((pt_x a - pt_x b)\<^sup>2 + (pt_y a - pt_y b)\<^sup>2)"
    by (simp add: lerp_def power2_eq_square algebra_simps)
  then show ?thesis
    by (simp add: euclid_def pointAt_def real_sqrt_mult)
qed

lemma exact_points_spacing:
  fixes a b :: point and s :: real and n :: nat
  defines "L \<equiv> euclid a b"
  assumes s: "0 < s" and n: "n = nat \<lfloor>L / s\<rfloor>"
    and pts: "\<And>k. k \<le> n \<Longrightarrow> out ! k = pointAt a b (real k * s / L)"
    and len: "length out = Suc n"
  shows "(\<forall>k<n. euclid (out ! k) (out ! Suc k) = s)
       \<and> (\<forall>k\<le>n. euclid a (out ! k) = real k * s)
       \<and> (real n * s < L \<longrightarrow> b \<notin> set out)"
proof -
  have L0: "0 \<le> L" by (simp add: L_def euclid_def)
  have pos: "0 < L" if "0 < n"
  proof -
    have "(1::nat) \<le> nat \<lfloor>L / s\<rfloor>" using that n by linarith
    then have "real 1 * s \<le> L" by (simp only: step_le_iff[OF s L0])
    then show ?thesis using s by simp
  qed
  have spacing: "euclid (out ! k) (out ! Suc k) = s" if "k < n" for k
  proof -
    have "real k * s / L - real (Suc k) * s / L = (real k * s - real (Suc k) * s) / L"
      by (simp only: diff_divide_distrib)
    also have "\<dots> = - (s / L)" by (simp add: algebra_simps)
    finally have "real k * s / L - real (Suc k) * s / L = - (s / L)" .
    then have "euclid (pointAt a b (real k * s / L)) (pointAt a b (real (Suc k) * s / L))
               = \<bar>s / L\<bar> * L"
      by (simp add: euclid_pointAt L_def)
    also have "\<dots> = s" using pos that s by simp
    finally have d: "euclid (pointAt a b (real k * s / L)) (pointAt a b (real (Suc k) * s / L)) = s" .
    have p: "out ! k = pointAt a b (real k * s / L)" using that by (intro pts) simp
    have q: "out ! Suc k = pointAt a b (real (Suc k) * s / L)" using that by (intro pts) simp
    show ?thesis unfolding p q by (rule d)
  qed
  have from_a: "euclid a (out ! k) = real k * s" if "k \<le> n" for k
  proof (cases "k = 0")
    case True
    have "out ! 0 = a" using pts[of 0] by (simp add: pointAt_zero)
    then show ?thesis using True by (simp add: euclid_def)
  next
    case False
    then have "0 < n" using that by linarith
    then have "0 < L" by (rule pos)
    moreover have "euclid (pointAt a b 0) (pointAt a b (real k * s / L)) = \<bar>real k * s / L\<bar> * L"
      by (simp add: euclid_pointAt L_def)
    ultimately have "euclid (pointAt a b 0) (pointAt a b (real k * s / L)) = real k * s"
      using s by simp
    then have d: "euclid a (pointAt a b (real k * s / L)) = real k * s" by (simp add: pointAt_zero)
    have p: "out ! k = pointAt a b (real k * s / L)" using that by (rule pts)
    show ?thesis unfolding p by (rule d)
  qed
  have no_end: "b \<notin> set out" if short: "real n * s < L"
  proof
    assume "b \<in> set out"
    then obtain k where k: "k < length out" "out ! k = b"
      unfolding in_set_conv_nth by blast
    then have kn: "k \<le> n" unfolding len by simp
    have "real k * s \<le> real n * s" using kn s by simp
    moreover have "L = real k * s" using from_a[OF kn] k(2) by (simp add: L_def)
    ultimately show False using short by simp
  qed
  show ?thesis using spacing from_a no_end by blast
qed

lemma straight_nth:
  "k \<le> n \<Longrightarrow> (a # map f [1..<Suc n]) ! k = (if k = 0 then a else f k)"
  by (cases k) (simp_all del: upt_Suc)

lemma integer_step_exact:
  assumes "0 < m" and "int (Suc n) * m < 2 ^ 53"
  shows "\<forall>j\<le>Suc n. rnd (real j * of_int m) = real j * of_int m"
proof (intro allI impI)
  fix j assume j: "j \<le> Suc n"
  have "int j * m \<le> int (Suc n) * m" using j assms(1) by (intro mult_right_mono) simp_all
  moreover have "0 \<le> int j * m" using assms(1) by simp
  ultimately have "\<bar>int j * m\<bar> < 2 ^ 53" using assms(2) by linarith
  then have "rnd (of_int (int j * m)) = of_int (int j * m)" by (rule rnd_of_int)
  then show "rnd (real j * of_int m) = real j * of_int m" by simp
qed

lemma double_small:
  shows "double 0" and "double 2" and "double 3" and "double 7" and "double 8"
  by (simp_all add: double_def rnd_0 rnd_small)

lemma dist_pt_example_x: "dist_pt \<lparr>pt_x = 0, pt_y = 0\<rparr> \<lparr>pt_x = 8, pt_y = 0\<rparr> = 8"
  by (simp add: dist_pt_def sub64_def hypot_axis rnd_small rnd_0)

lemma dist_pt_example_y: "dist_pt \<lparr>pt_x = 0, pt_y = 0\<rparr> \<lparr>pt_x = 0, pt_y = 8\<rparr> = 8"
  by (simp add: dist_pt_def sub64_def hypot_axis rnd_small rnd_0)

lemma straight_example:
  "resampleUniform [\<lparr>pt_x = 0, pt_y = 0\<rparr>, \<lparr>pt_x = 8, pt_y = 0\<rparr>] 3
     = Some [\<lparr>pt_x = 0, pt_y = 0\<rparr>, \<lparr>pt_x = 3, pt_y = 0\<rparr>, \<lparr>pt_x = 6, pt_y = 0\<rparr>]"
proof -
  have n: "nat \<lfloor>(8::real) / 3\<rfloor> = 2" by simp
  have ex: "\<forall>j\<le>Suc (nat \<lfloor>dist_pt \<lparr>pt_x = 0, pt_y = 0\<rparr> \<lparr>pt_x = 8, pt_y = 0\<rparr> / 3\<rfloor>).
              rnd (real j * 3) = real j * 3"
    unfolding dist_pt_example_x n using integer_step_exact[of 3 2] by simp
  have u: "[1..<Suc 2] = [1, 2]" by (simp add: upt_conv_Cons)
  show ?thesis
    using resampleUniform_exact_steps[OF _ ex]
    unfolding dist_pt_example_x n u
    by (simp add: interp_def lerp64_def add64_def mul64_def sub64_def div64_def rnd_small rnd_0)
qed

lemma emitLoop_Some_exceeds:
  assumes "emitLoop a b L s t out = Some r"
  shows "\<exists>n. L < tAfter s t n"
proof (rule emitLoop.raw_induct[where P = "\<lambda>a b L s t out r. \<exists>n. L < tAfter s t n", OF _ assms])
  fix emitLoop' a b L s t out r
  assume ih: "\<And>a b L s t out r. emitLoop' a b L s t out = Some r \<Longrightarrow> \<exists>n. L < tAfter s t n"
    and st: "(if t \<le> L then emitLoop' a b L s (add64 t s) (out @ [interp a b (div64 t L)])
              else Some out) = Some r"
  show "\<exists>n. L < tAfter s t n"
  proof (cases "t \<le> L")
    case True
    then have "emitLoop' a b L s (add64 t s) (out @ [interp a b (div64 t L)]) = Some r"
      using st by simp
    then obtain n where "L < tAfter s (add64 t s) n" using ih by blast
    then have "L < tAfter s t (Suc n)" by (simp only: tAfter_shift)
    then show ?thesis by blast
  next
    case False
    then have "L < tAfter s t 0" by simp
    then show ?thesis by blast
  qed
qed

lemma resampleUniform_never:
  assumes "\<forall>n. tAfter s (sub64 s 0) n \<le> dist_pt a b"
  shows "resampleUniform [a, b] s = None"
proof (cases "emitLoop a b (dist_pt a b) s (sub64 s 0) [a]")
  case None
  then show ?thesis by (simp add: resampleUniform_def)
next
  case (Some r)
  then obtain n where "dist_pt a b < tAfter s (sub64 s 0) n"
    using emitLoop_Some_exceeds by blast
  then show ?thesis using assms by (meson not_le)
qed

lemma rnd_stall: "rnd (2 ^ 53 + 1) = 2 ^ 53"
  using rnd_eval[of 53 "2 ^ 53 + 1"]
  by (simp add: roundEven_def power_int_diff power_int_add power_int_minus)

lemma tAfter_stall: "\<exists>m. tAfter 1 1 n = of_int m \<and> 1 \<le> m \<and> m \<le> 2 ^ 53"
proof (induction n)
  case 0
  have "tAfter 1 1 0 = of_int 1 \<and> (1::int) \<le> 1 \<and> (1::int) \<le> 2 ^ 53" by simp
  then show ?case by blast
next
  case (Suc n)
  then obtain m where m: "tAfter 1 1 n = of_int m" "1 \<le> m" "m \<le> 2 ^ 53" by blast
  have t: "tAfter 1 1 (Suc n) = rnd (of_int (m + 1))" using m(1) by (simp add: add64_def)
  consider "m + 1 < 2 ^ 53" | "m + 1 = 2 ^ 53" | "m = 2 ^ 53" using m(3) by linarith
  then show ?case
  proof cases
    case 1
    then have "rnd (of_int (m + 1)) = of_int (m + 1)" using m(2) by (intro rnd_of_int) simp
    then have "tAfter 1 1 (Suc n) = of_int (m + 1) \<and> 1 \<le> m + 1 \<and> m + 1 \<le> 2 ^ 53"
      using t 1 m(2) by simp
    then show ?thesis by blast
  next
    case 2
    have "rnd (of_int 1 * 2 powi 53) = of_int 1 * 2 powi 53" by (intro rnd_dyadic) simp_all
    then have "rnd (of_int (m + 1)) = of_int (m + 1)" unfolding 2 by simp
    then have "tAfter 1 1 (Suc n) = of_int (m + 1) \<and> 1 \<le> m + 1 \<and> m + 1 \<le> 2 ^ 53"
      using t 2 m(2) by simp
    then show ?thesis by blast
  next
    case 3
    have "rnd (of_int (m + 1)) = of_int m" unfolding 3 using rnd_stall by simp
    then have "tAfter 1 1 (Suc n) = of_int m \<and> 1 \<le> m \<and> m \<le> 2 ^ 53"
      using t m by simp
    then show ?thesis by blast
  qed
qed

lemma rnd_2_54: "rnd 18014398509481984 = 18014398509481984" "rnd (- 18014398509481984) = - 18014398509481984"
  using rnd_dyadic[of 1 54] rnd_dyadic[of "- 1" 54] by simp_all

lemma dist_pt_example_stall:
  "dist_pt \<lparr>pt_x = 0, pt_y = 0\<rparr> \<lparr>pt_x = 2 ^ 54, pt_y = 0\<rparr> = 2 ^ 54"
  by (simp add: dist_pt_def sub64_def hypot_axis rnd_0 rnd_2_54)

lemma stall_never:
  "\<forall>n. tAfter 1 1 n \<le> dist_pt \<lparr>pt_x = 0, pt_y = 0\<rparr> \<lparr>pt_x = 2 ^ 54, pt_y = 0\<rparr>"
proof
  fix n
  obtain m where m: "tAfter 1 1 n = of_int m" "m \<le> 2 ^ 53" using tAfter_stall[of n] by blast
  have "real_of_int m \<le> 2 ^ 53" using m(2) by (metis of_int_le_numeral_power_cancel_iff)
  then show "tAfter 1 1 n \<le> dist_pt \<lparr>pt_x = 0, pt_y = 0\<rparr> \<lparr>pt_x = 2 ^ 54, pt_y = 0\<rparr>"
    unfolding dist_pt_example_stall m(1) by simp
qed

lemma double_stall: "double 1" "double (2 ^ 54)"
  by (simp_all add: double_def rnd_small rnd_2_54)

text \<open>
  C5, as the code has it. Let \<open>a\<close> and \<open>b\<close> be points with double coordinates,
  \<open>s > 0\<close> a double and \<open>L = dist(a, b)\<close> as the code computes it. The loop variable
  takes the values \<open>s\<close>, \<open>s + s\<close>, \<open>(s + s) + s\<close>, \<dots>, each sum rounded. If it first
  exceeds \<open>L\<close> after \<open>n\<close> additions, \<open>resampleUniform\<close> returns \<open>a\<close> followed by the
  \<open>n\<close> points \<open>lerp(a, b, t / L)\<close> at the values \<open>t\<close> before, and nothing else: the end
  point \<open>b\<close> is not added. If it never exceeds \<open>L\<close>, the step being lost in the
  rounding of the sum, the function does not return. If the multiples \<open>j s\<close> for
  \<open>j \<le> \<lfloor>L / s\<rfloor> + 1\<close> are doubles, as they are for an integer step, no addition rounds
  and \<open>n = \<lfloor>L / s\<rfloor>\<close>: the function returns, and what it returns is \<open>a\<close> followed by
  the points at the parameters \<open>k s / L\<close>, \<open>1 + \<lfloor>L / s\<rfloor>\<close> points in all. If moreover
  nothing rounds in the length or in the interpolation, each point is exactly \<open>s\<close> from
  the next, the \<open>k\<close>-th is \<open>k s\<close> from \<open>a\<close>, and \<open>b\<close> is not in the result when \<open>L\<close> is
  not a multiple of \<open>s\<close>: the result has no trailing fragment.
\<close>

theorem resampleUniform_straight_spacing:
  assumes "doublePoint a" and "doublePoint b" and "double s" and "0 < s"
  shows "(\<forall>n. (\<forall>k<n. tAfter s s k \<le> dist_pt a b) \<and> dist_pt a b < tAfter s s n
            \<longrightarrow> resampleUniform [a, b] s
                  = Some (a # map (\<lambda>k. interp a b (div64 (tAfter s s k) (dist_pt a b))) [0..<n]))
       \<and> ((\<forall>n. tAfter s s n \<le> dist_pt a b) \<longrightarrow> resampleUniform [a, b] s = None)
       \<and> ((\<forall>j\<le>Suc (nat \<lfloor>dist_pt a b / s\<rfloor>). rnd (real j * s) = real j * s)
            \<longrightarrow> (\<exists>out. resampleUniform [a, b] s = Some out
                   \<and> out = a # map (\<lambda>k. interp a b (div64 (real k * s) (dist_pt a b)))
                                  [1..<Suc (nat \<lfloor>dist_pt a b / s\<rfloor>)]
                   \<and> length out = Suc (nat \<lfloor>dist_pt a b / s\<rfloor>)
                   \<and> hd out = a
                   \<and> (exactGeometry a b s
                        \<longrightarrow> (\<forall>k<nat \<lfloor>dist_pt a b / s\<rfloor>. euclid (out ! k) (out ! Suc k) = s)
                           \<and> (\<forall>k\<le>nat \<lfloor>dist_pt a b / s\<rfloor>. euclid a (out ! k) = real k * s)
                           \<and> (real (nat \<lfloor>dist_pt a b / s\<rfloor>) * s < dist_pt a b
                                \<longrightarrow> b \<notin> set out))))"
proof (intro conjI allI impI)
  have s0: "sub64 s 0 = s" using assms(3) by (simp add: sub64_def double_def)
  fix n
  assume h: "(\<forall>k<n. tAfter s s k \<le> dist_pt a b) \<and> dist_pt a b < tAfter s s n"
  show "resampleUniform [a, b] s
        = Some (a # map (\<lambda>k. interp a b (div64 (tAfter s s k) (dist_pt a b))) [0..<n])"
    using resampleUniform_straight[of n s a b] h unfolding s0 by blast
next
  have s0: "sub64 s 0 = s" using assms(3) by (simp add: sub64_def double_def)
  assume "\<forall>n. tAfter s s n \<le> dist_pt a b"
  then show "resampleUniform [a, b] s = None"
    using resampleUniform_never[of s a b] unfolding s0 by blast
next
  let ?L = "dist_pt a b" and ?n = "nat \<lfloor>dist_pt a b / s\<rfloor>"
  let ?f = "\<lambda>k. interp a b (div64 (real k * s) ?L)"
  let ?out = "a # map ?f [1..<Suc ?n]"
  assume ex: "\<forall>j\<le>Suc ?n. rnd (real j * s) = real j * s"
  have r: "resampleUniform [a, b] s = Some ?out"
    using assms(4) ex by (rule resampleUniform_exact_steps)
  have len: "length ?out = Suc ?n" by (simp del: upt_Suc)
  have geo: "(\<forall>k<?n. euclid (?out ! k) (?out ! Suc k) = s)
           \<and> (\<forall>k\<le>?n. euclid a (?out ! k) = real k * s)
           \<and> (real ?n * s < ?L \<longrightarrow> b \<notin> set ?out)" if g: "exactGeometry a b s"
  proof -
    have L: "?L = euclid a b" using g by (simp add: exactGeometry_def)
    have ip: "?f k = pointAt a b (real k * s / ?L)" if "1 \<le> k" "k \<le> ?n" for k
      using g that unfolding exactGeometry_def by blast
    have pts: "?out ! k = pointAt a b (real k * s / euclid a b)" if "k \<le> ?n" for k
    proof (cases "k = 0")
      case True
      then show ?thesis by (simp add: pointAt_zero)
    next
      case False
      then have "?out ! k = ?f k" using that by (simp only: straight_nth if_False)
      also have "\<dots> = pointAt a b (real k * s / ?L)" using False that by (intro ip) simp_all
      finally show ?thesis unfolding L .
    qed
    have n: "?n = nat \<lfloor>euclid a b / s\<rfloor>" unfolding L ..
    show ?thesis
      using exact_points_spacing[of s ?n a b ?out, OF assms(4) n pts len] unfolding L[symmetric]
      by blast
  qed
  show "\<exists>out. resampleUniform [a, b] s = Some out
          \<and> out = ?out \<and> length out = Suc ?n \<and> hd out = a
          \<and> (exactGeometry a b s
               \<longrightarrow> (\<forall>k<?n. euclid (out ! k) (out ! Suc k) = s)
                  \<and> (\<forall>k\<le>?n. euclid a (out ! k) = real k * s)
                  \<and> (real ?n * s < ?L \<longrightarrow> b \<notin> set out))"
    using r len geo by (intro exI[of _ ?out]) simp
qed

theorem resampleUniform_straight_spacing_witness:
  "doublePoint \<lparr>pt_x = 0, pt_y = 0\<rparr> \<and> doublePoint \<lparr>pt_x = 0, pt_y = 8\<rparr> \<and> double 2 \<and> (0::real) < 2
   \<and> list_all (\<lambda>j. rnd (real j * 2) = real j * 2) [0..<6]
   \<and> exactGeometry \<lparr>pt_x = 0, pt_y = 0\<rparr> \<lparr>pt_x = 0, pt_y = 8\<rparr> 2
   \<and> resampleUniform [\<lparr>pt_x = 0, pt_y = 0\<rparr>, \<lparr>pt_x = 0, pt_y = 8\<rparr>] 2
     = Some [\<lparr>pt_x = 0, pt_y = 0\<rparr>, \<lparr>pt_x = 0, pt_y = 2\<rparr>, \<lparr>pt_x = 0, pt_y = 4\<rparr>,
             \<lparr>pt_x = 0, pt_y = 6\<rparr>, \<lparr>pt_x = 0, pt_y = 8\<rparr>]
   \<and> euclid \<lparr>pt_x = 0, pt_y = 2\<rparr> \<lparr>pt_x = 0, pt_y = 4\<rparr> = 2
   \<and> doublePoint \<lparr>pt_x = 2 ^ 54, pt_y = 0\<rparr> \<and> double 1
   \<and> resampleUniform [\<lparr>pt_x = 0, pt_y = 0\<rparr>, \<lparr>pt_x = 2 ^ 54, pt_y = 0\<rparr>] 1 = None"
proof -
  let ?a = "\<lparr>pt_x = 0, pt_y = 0 :: real\<rparr>" and ?b = "\<lparr>pt_x = 0, pt_y = 8 :: real\<rparr>"
  have da: "doublePoint ?a" and db: "doublePoint ?b" and ds: "double 2"
    by (simp_all add: doublePoint_def double_small)
  have n: "nat \<lfloor>(8::real) / 2\<rfloor> = 4" by simp
  have ex: "\<forall>j\<le>Suc (nat \<lfloor>dist_pt ?a ?b / 2\<rfloor>). rnd (real j * 2) = real j * 2"
    unfolding dist_pt_example_y n using integer_step_exact[of 2 4] by simp
  have ex': "list_all (\<lambda>j. rnd (real j * 2) = real j * 2) [0..<6]"
    using ex unfolding dist_pt_example_y n by (simp add: list_all_iff)
  have cases4: "k = 1 \<or> k = 2 \<or> k = 3 \<or> k = 4" if "1 \<le> k" "k \<le> 4" for k :: nat
    using that by linarith
  have ip: "interp ?a ?b (div64 (real k * 2) 8) = pointAt ?a ?b (real k * 2 / 8)"
    if "1 \<le> k" "k \<le> 4" for k
    using cases4[OF that]
    by (auto simp add: interp_def pointAt_def lerp_def lerp64_def add64_def mul64_def sub64_def
          div64_def rnd_small rnd_0)
  have eu: "euclid ?a ?b = 8" by (simp add: euclid_def)
  have g: "exactGeometry ?a ?b 2"
    unfolding exactGeometry_def dist_pt_example_y n eu using ip by simp
  have u: "[1..<Suc 4] = [1, 2, 3, 4]" by (simp add: upt_conv_Cons)
  have d: "euclid \<lparr>pt_x = 0, pt_y = 2\<rparr> \<lparr>pt_x = 0, pt_y = 4\<rparr> = 2" by (simp add: euclid_def)
  have r: "resampleUniform [?a, ?b] 2
     = Some [\<lparr>pt_x = 0, pt_y = 0\<rparr>, \<lparr>pt_x = 0, pt_y = 2\<rparr>, \<lparr>pt_x = 0, pt_y = 4\<rparr>,
             \<lparr>pt_x = 0, pt_y = 6\<rparr>, \<lparr>pt_x = 0, pt_y = 8\<rparr>]"
    using resampleUniform_straight_spacing[OF da db ds, of] ex
    unfolding dist_pt_example_y n u
    by (simp add: interp_def lerp64_def add64_def mul64_def sub64_def div64_def rnd_small rnd_0)
  have dc: "doublePoint \<lparr>pt_x = 2 ^ 54, pt_y = 0\<rparr>" and d1: "double 1"
    using double_stall by (simp_all add: doublePoint_def double_small)
  have nv: "resampleUniform [?a, \<lparr>pt_x = 2 ^ 54, pt_y = 0\<rparr>] 1 = None"
    using resampleUniform_straight_spacing[OF da dc d1] stall_never by simp
  show ?thesis using da db ds ex' g r d dc d1 nv by simp
qed

text \<open>
  C5 as stated fails: on the segment from \<open>(0, 0)\<close> to \<open>(8, 0)\<close> with step 3, where
  every value computed is a double and nothing rounds, the result is the three points
  at 0, 3 and 6, not \<open>\<lfloor>8 / 3\<rfloor> = 2\<close> interior points and both end points, and \<open>(8, 0)\<close>
  is not among them.
\<close>

theorem resampleUniform_straight_counterexample:
  "doublePoint \<lparr>pt_x = 0, pt_y = 0\<rparr> \<and> doublePoint \<lparr>pt_x = 8, pt_y = 0\<rparr> \<and> double 3
   \<and> resampleUniform [\<lparr>pt_x = 0, pt_y = 0\<rparr>, \<lparr>pt_x = 8, pt_y = 0\<rparr>] 3
     = Some [\<lparr>pt_x = 0, pt_y = 0\<rparr>, \<lparr>pt_x = 3, pt_y = 0\<rparr>, \<lparr>pt_x = 6, pt_y = 0\<rparr>]
   \<and> \<lfloor>dist_pt \<lparr>pt_x = 0, pt_y = 0\<rparr> \<lparr>pt_x = 8, pt_y = 0\<rparr> / 3\<rfloor> = 2
   \<and> length [\<lparr>pt_x = 0, pt_y = 0\<rparr>, \<lparr>pt_x = 3, pt_y = 0\<rparr>, \<lparr>pt_x = 6, pt_y = 0::real\<rparr>] \<noteq> 2 + 2
   \<and> \<lparr>pt_x = 8, pt_y = 0\<rparr> \<notin> set [\<lparr>pt_x = 0, pt_y = 0\<rparr>, \<lparr>pt_x = 3, pt_y = 0\<rparr>, \<lparr>pt_x = 6, pt_y = 0\<rparr>]"
  using straight_example by (simp add: dist_pt_example_x doublePoint_def double_small)

lemma rnd_07: "rnd (7 / 10) = 3152519739159347 / 4503599627370496"
  using rnd_eval[of "- 1" "7 / 10"]
  by (simp add: roundEven_def power_int_diff power_int_add power_int_minus)

lemma step07_0: "add64 (3152519739159347 / 4503599627370496) (3152519739159347 / 4503599627370496) = 3152519739159347 / 2251799813685248"
proof -
  have e: "(3152519739159347 / 4503599627370496) + (3152519739159347 / 4503599627370496) = (3152519739159347 / 2251799813685248 :: real)" by simp
  show ?thesis unfolding add64_def e using rnd_eval[of "0" "3152519739159347 / 2251799813685248"]
    by (simp add: roundEven_def power_int_diff power_int_add power_int_minus)
qed

lemma step07_1: "add64 (3152519739159347 / 2251799813685248) (3152519739159347 / 4503599627370496) = 1182194902184755 / 562949953421312"
proof -
  have e: "(3152519739159347 / 2251799813685248) + (3152519739159347 / 4503599627370496) = (9457559217478041 / 4503599627370496 :: real)" by simp
  show ?thesis unfolding add64_def e using rnd_eval[of "1" "9457559217478041 / 4503599627370496"]
    by (simp add: roundEven_def power_int_diff power_int_add power_int_minus)
qed

lemma step07_2: "add64 (1182194902184755 / 562949953421312) (3152519739159347 / 4503599627370496) = 3152519739159347 / 1125899906842624"
proof -
  have e: "(1182194902184755 / 562949953421312) + (3152519739159347 / 4503599627370496) = (12610078956637387 / 4503599627370496 :: real)" by simp
  show ?thesis unfolding add64_def e using rnd_eval[of "1" "12610078956637387 / 4503599627370496"]
    by (simp add: roundEven_def power_int_diff power_int_add power_int_minus)
qed

lemma step07_3: "add64 (3152519739159347 / 1125899906842624) (3152519739159347 / 4503599627370496) = 7 / 2"
proof -
  have e: "(3152519739159347 / 1125899906842624) + (3152519739159347 / 4503599627370496) = (15762598695796735 / 4503599627370496 :: real)" by simp
  show ?thesis unfolding add64_def e using rnd_eval[of "1" "15762598695796735 / 4503599627370496"]
    by (simp add: roundEven_def power_int_diff power_int_add power_int_minus)
qed

lemma step07_4: "add64 (7 / 2) (3152519739159347 / 4503599627370496) = 4728779608739021 / 1125899906842624"
proof -
  have e: "(7 / 2) + (3152519739159347 / 4503599627370496) = (18915118434956083 / 4503599627370496 :: real)" by simp
  show ?thesis unfolding add64_def e using rnd_eval[of "2" "18915118434956083 / 4503599627370496"]
    by (simp add: roundEven_def power_int_diff power_int_add power_int_minus)
qed

lemma step07_5: "add64 (4728779608739021 / 1125899906842624) (3152519739159347 / 4503599627370496) = 2758454771764429 / 562949953421312"
proof -
  have e: "(4728779608739021 / 1125899906842624) + (3152519739159347 / 4503599627370496) = (22067638174115431 / 4503599627370496 :: real)" by simp
  show ?thesis unfolding add64_def e using rnd_eval[of "2" "22067638174115431 / 4503599627370496"]
    by (simp add: roundEven_def power_int_diff power_int_add power_int_minus)
qed

lemma step07_6: "add64 (2758454771764429 / 562949953421312) (3152519739159347 / 4503599627370496) = 6305039478318695 / 1125899906842624"
proof -
  have e: "(2758454771764429 / 562949953421312) + (3152519739159347 / 4503599627370496) = (25220157913274779 / 4503599627370496 :: real)" by simp
  show ?thesis unfolding add64_def e using rnd_eval[of "2" "25220157913274779 / 4503599627370496"]
    by (simp add: roundEven_def power_int_diff power_int_add power_int_minus)
qed

lemma step07_7: "add64 (6305039478318695 / 1125899906842624) (3152519739159347 / 4503599627370496) = 1773292353277133 / 281474976710656"
proof -
  have e: "(6305039478318695 / 1125899906842624) + (3152519739159347 / 4503599627370496) = (28372677652434127 / 4503599627370496 :: real)" by simp
  show ?thesis unfolding add64_def e using rnd_eval[of "2" "28372677652434127 / 4503599627370496"]
    by (simp add: roundEven_def power_int_diff power_int_add power_int_minus)
qed

lemma step07_8: "add64 (1773292353277133 / 281474976710656) (3152519739159347 / 4503599627370496) = 7881299347898369 / 1125899906842624"
proof -
  have e: "(1773292353277133 / 281474976710656) + (3152519739159347 / 4503599627370496) = (31525197391593475 / 4503599627370496 :: real)" by simp
  show ?thesis unfolding add64_def e using rnd_eval[of "2" "31525197391593475 / 4503599627370496"]
    by (simp add: roundEven_def power_int_diff power_int_add power_int_minus)
qed

lemma tAfter_07:
  shows "tAfter (3152519739159347 / 4503599627370496) (3152519739159347 / 4503599627370496) (0) = 3152519739159347 / 4503599627370496"
    and "tAfter (3152519739159347 / 4503599627370496) (3152519739159347 / 4503599627370496) (Suc 0) = 3152519739159347 / 2251799813685248"
    and "tAfter (3152519739159347 / 4503599627370496) (3152519739159347 / 4503599627370496) (Suc (Suc 0)) = 1182194902184755 / 562949953421312"
    and "tAfter (3152519739159347 / 4503599627370496) (3152519739159347 / 4503599627370496) (Suc (Suc (Suc 0))) = 3152519739159347 / 1125899906842624"
    and "tAfter (3152519739159347 / 4503599627370496) (3152519739159347 / 4503599627370496) (Suc (Suc (Suc (Suc 0)))) = 7 / 2"
    and "tAfter (3152519739159347 / 4503599627370496) (3152519739159347 / 4503599627370496) (Suc (Suc (Suc (Suc (Suc 0))))) = 4728779608739021 / 1125899906842624"
    and "tAfter (3152519739159347 / 4503599627370496) (3152519739159347 / 4503599627370496) (Suc (Suc (Suc (Suc (Suc (Suc 0)))))) = 2758454771764429 / 562949953421312"
    and "tAfter (3152519739159347 / 4503599627370496) (3152519739159347 / 4503599627370496) (Suc (Suc (Suc (Suc (Suc (Suc (Suc 0))))))) = 6305039478318695 / 1125899906842624"
    and "tAfter (3152519739159347 / 4503599627370496) (3152519739159347 / 4503599627370496) (Suc (Suc (Suc (Suc (Suc (Suc (Suc (Suc 0)))))))) = 1773292353277133 / 281474976710656"
    and "tAfter (3152519739159347 / 4503599627370496) (3152519739159347 / 4503599627370496) (Suc (Suc (Suc (Suc (Suc (Suc (Suc (Suc (Suc 0))))))))) = 7881299347898369 / 1125899906842624"
  by (simp_all add: step07_0 step07_1 step07_2 step07_3 step07_4 step07_5 step07_6 step07_7 step07_8)


lemma dist_pt_example_7: "dist_pt \<lparr>pt_x = 0, pt_y = 0\<rparr> \<lparr>pt_x = 7, pt_y = 0\<rparr> = 7"
  by (simp add: dist_pt_def sub64_def hypot_axis rnd_small rnd_0)

text \<open>
  Where the additions round, the number of points is not \<open>1 + \<lfloor>L / s\<rfloor>\<close> either. With
  the step \<open>0.7\<close>, the double nearest to it, on a segment of length 7, the loop variable
  is \<open>6.300000000000001\<close> after eight additions and \<open>7.000000000000001\<close>, more than 7,
  after nine: nine points follow the first, although ten multiples of the step are at
  most 7.
\<close>

lemma resampleUniform_step_07:
  "\<exists>out. resampleUniform [\<lparr>pt_x = 0, pt_y = 0\<rparr>, \<lparr>pt_x = 7, pt_y = 0\<rparr>] (rnd (7 / 10)) = Some out
      \<and> length out = 10
      \<and> tAfter (rnd (7 / 10)) (rnd (7 / 10)) 8 = 1773292353277133 / 281474976710656
      \<and> tAfter (rnd (7 / 10)) (rnd (7 / 10)) 9 = 7881299347898369 / 1125899906842624
      \<and> \<lfloor>dist_pt \<lparr>pt_x = 0, pt_y = 0\<rparr> \<lparr>pt_x = 7, pt_y = 0\<rparr> / rnd (7 / 10)\<rfloor> = 10"
proof -
  let ?s = "3152519739159347 / 4503599627370496 :: real"
  have ss: "sub64 ?s 0 = ?s"
    using rnd_dyadic[of 3152519739159347 "- 52"] by (simp add: sub64_def power_int_minus)
  have n: "(9::nat) = Suc (Suc (Suc (Suc (Suc (Suc (Suc (Suc (Suc 0))))))))" by simp
  have a1: "\<forall>k<9. tAfter ?s (sub64 ?s 0) k \<le> dist_pt \<lparr>pt_x = 0, pt_y = 0\<rparr> \<lparr>pt_x = 7, pt_y = 0\<rparr>"
    unfolding ss dist_pt_example_7 n by (simp add: less_Suc_eq tAfter_07 del: tAfter.simps)
  have a2: "dist_pt \<lparr>pt_x = 0, pt_y = 0\<rparr> \<lparr>pt_x = 7, pt_y = 0\<rparr> < tAfter ?s (sub64 ?s 0) 9"
    unfolding ss dist_pt_example_7 n by (simp add: tAfter_07 del: tAfter.simps)
  have t8: "tAfter ?s ?s 8 = 1773292353277133 / 281474976710656"
    using tAfter_07(9) by (simp add: eval_nat_numeral del: tAfter.simps)
  have t9: "tAfter ?s ?s 9 = 7881299347898369 / 1125899906842624"
    using tAfter_07(10) by (simp add: eval_nat_numeral del: tAfter.simps)
  show ?thesis
    using resampleUniform_straight[OF a1 a2] t8 t9
    unfolding ss dist_pt_example_7 rnd_07 by simp
qed

section \<open>Validation of imported steps\<close>

lemma validateStep_iff:
  "validateStep (Some s) =
     (\<exists>a b d. ch0 s = Fin a \<and> ch1 s = Fin b \<and> duration s = Fin d
        \<and> 0 \<le> a \<and> a \<le> 100 \<and> 0 \<le> b \<and> b \<le> 100 \<and> 1 \<le> d)"
  by (cases "ch0 s"; cases "ch1 s"; cases "duration s")
    (auto simp: validateStep_def js_le_def)

lemma js_round_range: "lo \<le> y \<Longrightarrow> y \<le> hi \<Longrightarrow> of_int lo' \<le> lo \<Longrightarrow> hi \<le> of_int hi'
    \<Longrightarrow> lo' \<le> js_round y \<and> js_round y \<le> hi'"
  unfolding js_round_def by (auto simp: le_floor_iff floor_le_iff)

lemma channel_ok:
  "(isFinite (Math_round (js_clamp v (Fin 0) (Fin 100)))
      \<and> js_ge (Math_round (js_clamp v (Fin 0) (Fin 100))) (Fin 0)
      \<and> js_le (Math_round (js_clamp v (Fin 0) (Fin 100))) (Fin 100))
   = (v \<noteq> NaN)"
proof (cases v)
  case (Fin x)
  have "0 \<le> js_round (max 0 (min 100 x)) \<and> js_round (max 0 (min 100 x)) \<le> 100"
    by (rule js_round_range[where lo = 0 and hi = 100]) simp_all
  then show ?thesis using Fin by (simp add: js_clamp_def js_le_def)
qed (simp_all add: js_clamp_def js_le_def js_round_def)

lemma duration_ok:
  "(isFinite (Math_round (Math_max (Fin 1) v)) \<and> js_ge (Math_round (Math_max (Fin 1) v)) (Fin 1))
   = (v \<noteq> NaN \<and> v \<noteq> PosInf)"
proof (cases v)
  case (Fin x)
  have "1 \<le> js_round (max 1 x)"
    unfolding js_round_def by (simp add: le_floor_iff) 
  then show ?thesis using Fin by simp
qed (simp_all add: js_round_def)

lemma normalized_valid_iff:
  "validateStep (Some (normalizeStep d c)) =
     (nullish (c_ch0 c) (Fin 0) \<noteq> NaN \<and> nullish (c_ch1 c) (Fin d) \<noteq> NaN
      \<and> nullish (c_duration c) (Fin 0) \<noteq> NaN \<and> nullish (c_duration c) (Fin 0) \<noteq> PosInf)"
  using channel_ok[of "nullish (c_ch0 c) (Fin 0)"] channel_ok[of "nullish (c_ch1 c) (Fin d)"]
    duration_ok[of "nullish (c_duration c) (Fin 0)"]
  by (simp add: validateStep_def normalizeStep_def)

lemma normalizeAll_objects:
  "normalizeAll d (map Some cs) = Inr (map (normalizeStep d) cs)"
  by (induction cs) simp_all

text \<open>
  C6, as the code has it. \<open>validateStep\<close> accepts a step exactly when \<open>ch0\<close> and \<open>ch1\<close>
  are finite numbers in \<open>[0, 100]\<close> and \<open>duration\<close> is a finite number of at least 1.
  \<open>extractStepsFromJson\<close> applies it to a candidate after normalising it (a missing
  \<open>ch0\<close> is 0, a missing \<open>ch1\<close> the calibration's, a missing \<open>duration\<close> 0; \<open>ch0\<close> and
  \<open>ch1\<close> are clamped into \<open>[0, 100]\<close> and rounded, \<open>duration\<close> is raised to 1 and
  rounded). So the normalised candidate is accepted exactly when none of its three
  fields is \<open>NaN\<close> and its duration is not infinite; a candidate with three finite
  numbers is always accepted, whatever their range; and for a non-empty step array of
  objects the import succeeds with the normalised candidates that pass, in their order.
\<close>

theorem extractStepsFromJson_normalizes_then_filters:
  "(validateStep (Some s) =
     (\<exists>a b d. ch0 s = Fin a \<and> ch1 s = Fin b \<and> duration s = Fin d
        \<and> 0 \<le> a \<and> a \<le> 100 \<and> 0 \<le> b \<and> b \<le> 100 \<and> 1 \<le> d))
   \<and> (validateStep (Some (normalizeStep (cal_ch1 cp) c)) =
        (nullish (c_ch0 c) (Fin 0) \<noteq> NaN \<and> nullish (c_ch1 c) (Fin (cal_ch1 cp)) \<noteq> NaN
         \<and> nullish (c_duration c) (Fin 0) \<noteq> NaN \<and> nullish (c_duration c) (Fin 0) \<noteq> PosInf))
   \<and> validateStep (Some (normalizeStep (cal_ch1 cp)
         \<lparr>c_ch0 = Some (Fin x0), c_ch1 = Some (Fin x1), c_duration = Some (Fin x2)\<rparr>))
   \<and> (cs \<noteq> [] \<longrightarrow>
        extractStepsFromJson cp (json\<lparr>j_steps := Some (map Some cs)\<rparr>)
          = Inr (filter (\<lambda>s. validateStep (Some s)) (map (normalizeStep (cal_ch1 cp)) cs)))"
proof (intro conjI impI)
  show "validateStep (Some s) =
     (\<exists>a b d. ch0 s = Fin a \<and> ch1 s = Fin b \<and> duration s = Fin d
        \<and> 0 \<le> a \<and> a \<le> 100 \<and> 0 \<le> b \<and> b \<le> 100 \<and> 1 \<le> d)"
    by (rule validateStep_iff)
next
  show "validateStep (Some (normalizeStep (cal_ch1 cp) c)) =
        (nullish (c_ch0 c) (Fin 0) \<noteq> NaN \<and> nullish (c_ch1 c) (Fin (cal_ch1 cp)) \<noteq> NaN
         \<and> nullish (c_duration c) (Fin 0) \<noteq> NaN \<and> nullish (c_duration c) (Fin 0) \<noteq> PosInf)"
    by (rule normalized_valid_iff)
next
  show "validateStep (Some (normalizeStep (cal_ch1 cp)
         \<lparr>c_ch0 = Some (Fin x0), c_ch1 = Some (Fin x1), c_duration = Some (Fin x2)\<rparr>))"
    by (simp add: normalized_valid_iff nullish_def)
next
  assume "cs \<noteq> []"
  then show "extractStepsFromJson cp (json\<lparr>j_steps := Some (map Some cs)\<rparr>)
          = Inr (filter (\<lambda>s. validateStep (Some s)) (map (normalizeStep (cal_ch1 cp)) cs))"
    by (simp add: extractStepsFromJson_def Let_def normalizeAll_objects)
qed

lemmas import_eval = extractStepsFromJson_def emptyJson_def normalizeStep_def validateStep_def
  nullish_def js_clamp_def js_le_def js_round_def calibrationParams0_def DENSE_PARAMS_def

theorem extractStepsFromJson_normalizes_then_filters_witness:
  "[\<lparr>c_ch0 = Some (Fin 150), c_ch1 = Some (Fin (- 20)), c_duration = Some (Fin 0)\<rparr>,
    \<lparr>c_ch0 = Some NaN, c_ch1 = Some (Fin 70), c_duration = Some (Fin 2000)\<rparr>,
    \<lparr>c_ch0 = Some (Fin 50), c_ch1 = None, c_duration = Some (Fin 2000)\<rparr>] \<noteq> []
   \<and> extractStepsFromJson calibrationParams0 (emptyJson\<lparr>j_steps := Some (map Some
       [\<lparr>c_ch0 = Some (Fin 150), c_ch1 = Some (Fin (- 20)), c_duration = Some (Fin 0)\<rparr>,
        \<lparr>c_ch0 = Some NaN, c_ch1 = Some (Fin 70), c_duration = Some (Fin 2000)\<rparr>,
        \<lparr>c_ch0 = Some (Fin 50), c_ch1 = None, c_duration = Some (Fin 2000)\<rparr>])\<rparr>)
     = Inr [\<lparr>ch0 = Fin 100, ch1 = Fin 0, duration = Fin 1\<rparr>,
            \<lparr>ch0 = Fin 50, ch1 = Fin 70, duration = Fin 2000\<rparr>]"
proof -
  have r: "js_round 100 = 100" "js_round 0 = 0" "js_round 1 = 1" "js_round 50 = 50"
    "js_round 70 = 70" "js_round 2000 = 2000"
    by (simp_all add: js_round_def)
  show ?thesis
    using extractStepsFromJson_normalizes_then_filters[of _ calibrationParams0 _ _ _ _
      "[\<lparr>c_ch0 = Some (Fin 150), c_ch1 = Some (Fin (- 20)), c_duration = Some (Fin 0)\<rparr>,
        \<lparr>c_ch0 = Some NaN, c_ch1 = Some (Fin 70), c_duration = Some (Fin 2000)\<rparr>,
        \<lparr>c_ch0 = Some (Fin 50), c_ch1 = None, c_duration = Some (Fin 2000)\<rparr>]" emptyJson]
    by (simp add: normalizeStep_def validateStep_def nullish_def js_clamp_def js_le_def r
        calibrationParams0_def DENSE_PARAMS_def)
qed

text \<open>
  C6 as stated fails: the candidate \<open>{ch0: 150, ch1: -20, duration: 0}\<close> has no field in
  its range, and it is accepted, as \<open>{ch0: 100, ch1: 0, duration: 1}\<close>.
\<close>

theorem extractStepsFromJson_accepts_out_of_range_counterexample:
  "\<not> ((0::real) \<le> 150 \<and> (150::real) \<le> 100) \<and> \<not> ((0::real) \<le> - 20) \<and> \<not> ((1::real) \<le> 0)
   \<and> extractStepsFromJson calibrationParams0 (emptyJson\<lparr>j_steps := Some
       [Some \<lparr>c_ch0 = Some (Fin 150), c_ch1 = Some (Fin (- 20)), c_duration = Some (Fin 0)\<rparr>]\<rparr>)
     = Inr [\<lparr>ch0 = Fin 100, ch1 = Fin 0, duration = Fin 1\<rparr>]"
  by (simp add: import_eval)

text \<open>A \<open>null\<close> entry of the step array makes the whole extraction throw.\<close>

lemma extractStepsFromJson_null_entry:
  "extractStepsFromJson calibrationParams0 (emptyJson\<lparr>j_steps := Some
       [Some \<lparr>c_ch0 = Some (Fin 50), c_ch1 = Some (Fin 70), c_duration = Some (Fin 2000)\<rparr>, None]\<rparr>)
     = Inl TypeError"
  by (simp add: import_eval)

section \<open>Pulse-width modulation\<close>








section \<open>Error diffusion\<close>

text \<open>\<open>stepIdx\<close> is a positive integer when the sample step is not zero.\<close>

lemma stepIdxOf_positive:
  assumes "sampleStep \<noteq> 0"
  shows "\<exists>k. 0 < k \<and> stepIdxOf minSpacingPx sampleStep = Fin (real k)"
proof -
  let ?r = "js_round (max minSpacingPx sampleStep / sampleStep)"
  have "stepIdxOf minSpacingPx sampleStep = Fin (max 1 (of_int ?r))"
    using assms by (simp add: stepIdxOf_def js_div_def)
  moreover have "max 1 (real_of_int ?r) = real (nat (max 1 ?r))" by simp
  moreover have "0 < nat (max 1 ?r)" by simp
  ultimately show ?thesis by metis
qed

lemma diffuse_length: "length (diffuse fc i e) = length fc"
  by (simp add: diffuse_def)

lemma diffuse_nth:
  assumes "j < length fc"
  shows "diffuse fc i e ! j
         = fc ! j + (if i < j \<and> j \<le> i + 4 then e * weights ! (j - i - 1) else 0)"
proof -
  consider "j \<le> i" | "j = i + 1" | "j = i + 2" | "j = i + 3" | "j = i + 4" | "i + 4 < j"
    by linarith
  then show ?thesis
    using assms
    by cases (simp_all add: diffuse_def weights_def nth_list_update)
qed

lemma diffusedUpTo_0: "diffusedUpTo thr f 0 j = f ! j"
  by (simp add: diffusedUpTo_def)

lemma diffusedUpTo_self: "diffusedUpTo thr f j j = diffused thr f j"
proof -
  show ?thesis
    by (subst diffused.simps) (simp add: diffusedUpTo_def)
qed

lemma diffusedUpTo_Suc:
  "diffusedUpTo thr f (Suc i) j
   = diffusedUpTo thr f i j
     + (if i < j \<and> j \<le> i + 4 then quantError thr (diffused thr f i) * weights ! (j - i - 1)
        else 0)"
proof -
  consider "j \<le> i" | "j = i + 1" | "j = i + 2" | "j = i + 3" | "j = i + 4" | "i + 4 < j"
    by linarith
  then show ?thesis
    by cases (simp_all add: diffusedUpTo_def weights_def)
qed


lemma quantize_pos: "(0 < quantize thr a) = (quantize thr a = 1)"
  by (simp add: quantize_def)

lemma ditherStep_inv:
  assumes "0 < stepIdx" "i < length f" "length fc = length f" "length g = length f"
    and fc: "\<forall>j<length f. fc ! j = diffusedUpTo (threshold p) f i j"
    and g: "\<forall>j<i. g ! j = quantize (threshold p) (diffused (threshold p) f j)"
  shows "\<exists>fc' g'. ditherStep p stepIdx w i (fc, g, drops)
           = (fc', g', drops @ map (\<lambda>j. dropAt p j w 1)
                 (filter (\<lambda>j. quantize (threshold p) (diffused (threshold p) f j) = 1
                              \<and> j mod stepIdx = 0) [i]))
         \<and> length fc' = length f \<and> length g' = length f
         \<and> (\<forall>j<length f. fc' ! j = diffusedUpTo (threshold p) f (Suc i) j)
         \<and> (\<forall>j<Suc i. g' ! j = quantize (threshold p) (diffused (threshold p) f j))"
proof -
  let ?thr = "threshold p"
  let ?a = "diffused ?thr f i"
  have cur: "fc ! i = ?a" using fc assms(2) by (simp add: diffusedUpTo_self)
  have out: "(if ?thr \<le> clamp (fc ! i) 0 1 then 1 else 0) = quantize ?thr ?a"
    by (simp add: cur quantize_def)
  have err: "clamp (fc ! i) 0 1 - quantize ?thr ?a = quantError ?thr ?a"
    by (simp add: cur quantError_def)
  let ?fc' = "diffuse fc i (quantError ?thr ?a)"
  let ?g' = "g[i := quantize ?thr ?a]"
  have step: "ditherStep p stepIdx w i (fc, g, drops)
      = (?fc', ?g', if i mod stepIdx = 0 \<and> quantize ?thr ?a = 1
                    then drops @ [dropAt p i w 1] else drops)"
    using assms(1) by (simp add: ditherStep_def Let_def out err quantize_pos)
  have fc': "\<forall>j<length f. ?fc' ! j = diffusedUpTo ?thr f (Suc i) j"
    using fc assms(3) by (simp add: diffuse_nth diffusedUpTo_Suc)
  have g': "\<forall>j<Suc i. ?g' ! j = quantize ?thr (diffused ?thr f j)"
    using g assms(2,4) by (auto simp: nth_list_update less_Suc_eq)
  show ?thesis
    using step fc' g' assms(3,4) by (auto simp: diffuse_length)
qed

lemma dither_fold:
  assumes "0 < stepIdx" "i \<le> length f"
  shows "\<exists>fc g. fold (ditherStep p stepIdx w) [0..<i] (f, replicate (length f) 0, [])
           = (fc, g, map (\<lambda>j. dropAt p j w 1)
                 (filter (\<lambda>j. quantize (threshold p) (diffused (threshold p) f j) = 1
                              \<and> j mod stepIdx = 0) [0..<i]))
         \<and> length fc = length f \<and> length g = length f
         \<and> (\<forall>j<length f. fc ! j = diffusedUpTo (threshold p) f i j)
         \<and> (\<forall>j<i. g ! j = quantize (threshold p) (diffused (threshold p) f j))"
  using assms(2)
proof (induction i)
  case 0
  then show ?case by (simp add: diffusedUpTo_0)
next
  case (Suc i)
  let ?P = "\<lambda>j. quantize (threshold p) (diffused (threshold p) f j) = 1 \<and> j mod stepIdx = 0"
  from Suc obtain fc g where
    run: "fold (ditherStep p stepIdx w) [0..<i] (f, replicate (length f) 0, [])
           = (fc, g, map (\<lambda>j. dropAt p j w 1) (filter ?P [0..<i]))"
    and inv: "length fc = length f" "length g = length f"
      "\<forall>j<length f. fc ! j = diffusedUpTo (threshold p) f i j"
      "\<forall>j<i. g ! j = quantize (threshold p) (diffused (threshold p) f j)"
    by auto
  have i: "i < length f" using Suc.prems by simp
  from ditherStep_inv[OF assms(1) i inv, of w "map (\<lambda>j. dropAt p j w 1) (filter ?P [0..<i])"]
  obtain fc' g' where
    step: "ditherStep p stepIdx w i (fc, g, map (\<lambda>j. dropAt p j w 1) (filter ?P [0..<i]))
           = (fc', g', map (\<lambda>j. dropAt p j w 1) (filter ?P [0..<i])
                 @ map (\<lambda>j. dropAt p j w 1) (filter ?P [i]))"
    and inv': "length fc' = length f" "length g' = length f"
      "\<forall>j<length f. fc' ! j = diffusedUpTo (threshold p) f (Suc i) j"
      "\<forall>j<Suc i. g' ! j = quantize (threshold p) (diffused (threshold p) f j)"
    by blast
  have "fold (ditherStep p stepIdx w) [0..<Suc i] (f, replicate (length f) 0, [])
        = (fc', g', map (\<lambda>j. dropAt p j w 1) (filter ?P [0..<Suc i]))"
    using run step by simp
  then show ?case using inv' by blast
qed

text \<open>
  C7. In DITHER mode with a positive \<open>stepIdx\<close>, for every intensity sequence: the output
  at every sample index is the threshold applied to the clamped value of the sample
  after the errors (value minus output) of the four samples before it have been added
  with the weights 7/16, 5/16, 3/16, 1/16, whatever \<open>stepIdx\<close> is; and the droplets are
  those of the sample indices where that output is 1 and the index is a multiple of
  \<open>stepIdx\<close>, in order.
\<close>

theorem dither_diffuses_every_sample:
  assumes "0 < stepIdx"
  shows "synthesize DITHER p stepIdx f
         = Some (map (\<lambda>i. dropAt p i (1 / 2 * (widthMinMm p + widthMaxMm p)) 1)
                   (filter (\<lambda>i. quantize (threshold p) (diffused (threshold p) f i) = 1
                                \<and> i mod stepIdx = 0) [0..<length f]),
                 map (\<lambda>i. quantize (threshold p) (diffused (threshold p) f i)) [0..<length f])"
proof -
  let ?w = "1 / 2 * (widthMinMm p + widthMaxMm p)"
  from dither_fold[OF assms order_refl, of p ?w f]
  obtain fc g where
    run: "fold (ditherStep p stepIdx ?w) [0..<length f] (f, replicate (length f) 0, [])
           = (fc, g, map (\<lambda>j. dropAt p j ?w 1)
                 (filter (\<lambda>j. quantize (threshold p) (diffused (threshold p) f j) = 1
                              \<and> j mod stepIdx = 0) [0..<length f]))"
    and len: "length g = length f"
    and g: "\<forall>j<length f. g ! j = quantize (threshold p) (diffused (threshold p) f j)"
    by blast
  have "g = map (\<lambda>i. quantize (threshold p) (diffused (threshold p) f i)) [0..<length f]"
    using len g by (intro nth_equalityI) simp_all
  then show ?thesis using run by (simp add: synthesize_def)
qed


theorem dither_diffuses_every_sample_witness:
  "(0::nat) < 2
   \<and> synthesize DITHER params0 2 [1 / 5, 9 / 10, 9 / 10]
       = Some ([dropAt params0 2 (3 / 5) 1], [0, 1, 1])"
proof -
  let ?f = "[1 / 5, 9 / 10, 9 / 10] :: real list"
  have d0: "diffused (1 / 2) ?f 0 = 1 / 5"
    by (subst diffused.simps) simp
  have q0: "quantize (1 / 2) (1 / 5) = 0" "quantError (1 / 2) (1 / 5) = 1 / 5"
    by (simp_all add: quantError_def quantize_def clamp_def)
  have d1: "diffused (1 / 2) ?f (Suc 0) = 79 / 80"
    by (subst diffused.simps) (simp add: d0 q0)
  have q1: "quantize (1 / 2) (79 / 80) = 1" "quantError (1 / 2) (79 / 80) = - (1 / 80)"
    by (simp_all add: quantError_def quantize_def clamp_def)
  have d2: "diffused (1 / 2) ?f 2 = 245 / 256"
    by (subst diffused.simps) (simp add: d0 q0 d1 q1)
  have q2: "quantize (1 / 2) (245 / 256) = 1"
    by (simp add: quantize_def clamp_def)
  have u: "[0..<length ?f] = [0, 1, 2]" by (simp add: upt_conv_Cons)
  have t: "threshold params0 = 1 / 2" "1 / 2 * (widthMinMm params0 + widthMaxMm params0) = 3 / 5"
    by (simp_all add: params0_def)
  show ?thesis
    using dither_diffuses_every_sample[of 2 params0 ?f] unfolding u t by (simp add: d0 d1 d2 q0 q1 q2)
qed

end
